theory Spec2Isabelle
  imports Main "HOL-Library.Word"
begin

unbundle bit_operations_syntax

section \<open>Tempesta DB: the public interface of db/core/main.c\<close>

text \<open>
  The theory embeds the entry points of \<^verbatim>\<open>db/core/main.c\<close>. The hash trie itself
  (\<^verbatim>\<open>htrie.c\<close>), the table registry (\<^verbatim>\<open>table.c\<close>) and the file mapping
  (\<^verbatim>\<open>file.c\<close>) are other translation units: the functions \<^verbatim>\<open>main.c\<close> calls in
  them are parameters of the model, collected in a record of operations, so that every
  statement about \<^verbatim>\<open>main.c\<close> holds for each implementation of them. A second part of
  the theory gives one implementation of the trie operations that follows the
  specification text, and is used where a statement is about what the trie does.
\<close>

subsection \<open>Data model\<close>

type_synonym u64 = "64 word"
type_synonym u32 = "32 word"

text \<open>
  A C function either returns or stops the kernel: \<^verbatim>\<open>BUG_ON\<close> fires (\<open>BUG\<close>), or
  a pointer that is null or does not point to a record is dereferenced (\<open>Oops\<close>).
\<close>

datatype fault = BUG | Oops

text \<open>
  A record placed in the mapping. \<open>data\<close> is the address of the flexible array member
  \<^verbatim>\<open>data[]\<close>, \<open>bytes\<close> what is stored there, \<open>chunk_next\<close> the next fragment of a
  variable record. The flags and the reference counter are those of the record life cycle.
\<close>

record TdbRec =
  key :: u64
  chunk_next :: "nat option"
  len :: u32
  data :: u64
  bytes :: "8 word list"
  refcnt :: int
  complete :: bool
  tombstone :: bool

text \<open>
  The mapped header \<^verbatim>\<open>TdbHdr\<close>: the records of the mapping, a record pointer being the
  position of the record (records are never moved), and \<open>priv\<close>, everything else the
  trie keeps in the mapping (index nodes, buckets, allocator state).
\<close>

record 'x TdbHdr =
  recs :: "TdbRec list"
  priv :: 'x

record 'h TDB =
  hdr :: 'h
  ga_lock :: bool
  count :: int
  node :: int
  path :: string
  tbl_name :: string

record TdbIter =
  rec :: "nat option"
  bckt :: "nat option"

text \<open>\<^verbatim>\<open>tdb_eq_cb_t\<close> with its \<^verbatim>\<open>void *\<close> argument bound.\<close>

type_synonym tdb_eq_cb = "TdbRec \<Rightarrow> bool"

text \<open>
  \<^verbatim>\<open>TdbGetAllocCtx\<close>: the three callbacks, their opaque argument \<open>ctx\<close>, the requested
  length (\<^verbatim>\<open>len\<close> in the source) and the out flag. \<open>precreate_rec\<close> may be null.
\<close>

record 'c TdbGetAllocCtx =
  eq_rec :: "TdbRec \<Rightarrow> 'c \<Rightarrow> bool"
  precreate_rec :: "('c \<Rightarrow> int) option"
  init_rec :: "TdbRec \<Rightarrow> 'c \<Rightarrow> TdbRec"
  ctx :: 'c
  ctx_len :: u64
  is_new :: bool

text \<open>
  What \<^verbatim>\<open>htrie.h\<close> declares and \<^verbatim>\<open>main.c\<close> uses. Each function takes the header and
  returns it updated; a \<^verbatim>\<open>size_t *len\<close> or \<^verbatim>\<open>TdbBucket **\<close> argument is returned
  updated as well. The three functions that take a record pointer only work on that
  record. A callback is given the record its pointer argument points to.
\<close>

record 'x htrie_ops =
  TDB_HTRIE_MINDREC :: u64
  tdb_htrie_insert ::
    "'x TdbHdr \<Rightarrow> u64 \<Rightarrow> 8 word list option \<Rightarrow> tdb_eq_cb option \<Rightarrow> u64 \<Rightarrow> bool
      \<Rightarrow> nat option \<times> u64 \<times> 'x TdbHdr"
  tdb_htrie_lookup :: "'x TdbHdr \<Rightarrow> u64 \<Rightarrow> nat option"
  tdb_htrie_bscan_for_rec ::
    "'x TdbHdr \<Rightarrow> nat \<Rightarrow> u64 \<Rightarrow> nat option \<times> nat option \<times> 'x TdbHdr"
  tdb_htrie_next_rec ::
    "'x TdbHdr \<Rightarrow> nat \<Rightarrow> nat \<Rightarrow> u64 \<Rightarrow> nat option \<times> nat option \<times> 'x TdbHdr"
  tdb_htrie_extend_rec :: "'x TdbHdr \<Rightarrow> nat \<Rightarrow> u64 \<Rightarrow> nat option \<times> 'x TdbHdr"
  tdb_htrie_remove :: "'x TdbHdr \<Rightarrow> u64 \<Rightarrow> tdb_eq_cb option \<Rightarrow> bool \<Rightarrow> 'x TdbHdr"
  tdb_htrie_walk :: "'x TdbHdr \<Rightarrow> (TdbRec \<Rightarrow> int) \<Rightarrow> int \<times> 'x TdbHdr"
  tdb_htrie_put_rec :: "'x TdbHdr \<Rightarrow> nat \<Rightarrow> 'x TdbHdr"
  tdb_htrie_get_rec :: "TdbRec \<Rightarrow> TdbRec"
  tdb_rec_is_complete :: "TdbRec \<Rightarrow> bool"
  tdb_rec_mark_complete :: "TdbRec \<Rightarrow> TdbRec"

subsection \<open>Entry creation\<close>

definition tdb_entry_create ::
  "'x htrie_ops \<Rightarrow> 'x TdbHdr TDB \<Rightarrow> u64 \<Rightarrow> 8 word list option \<Rightarrow> u64
    \<Rightarrow> fault + (nat option \<times> u64 \<times> 'x TdbHdr TDB)" where
  "tdb_entry_create ops db k d n =
     (if d = None then Inl BUG
      else case tdb_htrie_insert ops (hdr db) k d None n True of
             (r, n', h') \<Rightarrow> Inr (r, n', db\<lparr>hdr := h'\<rparr>))"

definition tdb_entry_alloc_unique ::
  "'x htrie_ops \<Rightarrow> 'x TdbHdr TDB \<Rightarrow> u64 \<Rightarrow> u64 \<Rightarrow> tdb_eq_cb option
    \<Rightarrow> fault + (nat option \<times> u64 \<times> 'x TdbHdr TDB)" where
  "tdb_entry_alloc_unique ops db k n eq_cb =
     (if n < TDB_HTRIE_MINDREC ops then Inl BUG
      else case tdb_htrie_insert ops (hdr db) k None eq_cb n False of
             (r, n', h') \<Rightarrow> Inr (r, n', db\<lparr>hdr := h'\<rparr>))"

definition tdb_entry_alloc ::
  "'x htrie_ops \<Rightarrow> 'x TdbHdr TDB \<Rightarrow> u64 \<Rightarrow> u64
    \<Rightarrow> fault + (nat option \<times> u64 \<times> 'x TdbHdr TDB)" where
  "tdb_entry_alloc ops db k n =
     (if n < TDB_HTRIE_MINDREC ops then Inl BUG
      else case tdb_htrie_insert ops (hdr db) k None None n False of
             (r, n', h') \<Rightarrow> Inr (r, n', db\<lparr>hdr := h'\<rparr>))"

text \<open>
  The functions below take a record pointer and work on the record it points to; a
  pointer that is not the position of a record is a fault.
\<close>

definition tdb_entry_is_complete :: "'x htrie_ops \<Rightarrow> 'x TdbHdr \<Rightarrow> nat \<Rightarrow> fault + bool" where
  "tdb_entry_is_complete ops h r =
     (if r < length (recs h) then Inr (tdb_rec_is_complete ops (recs h ! r)) else Inl Oops)"

definition tdb_entry_mark_complete ::
  "'x htrie_ops \<Rightarrow> 'x TdbHdr \<Rightarrow> nat \<Rightarrow> fault + 'x TdbHdr" where
  "tdb_entry_mark_complete ops h r =
     (if r < length (recs h)
      then Inr (h\<lparr>recs := (recs h)[r := tdb_rec_mark_complete ops (recs h ! r)]\<rparr>)
      else Inl Oops)"

definition tdb_entry_add ::
  "'x htrie_ops \<Rightarrow> 'x TdbHdr TDB \<Rightarrow> nat \<Rightarrow> u64 \<Rightarrow> nat option \<times> 'x TdbHdr TDB" where
  "tdb_entry_add ops db r sz =
     (case tdb_htrie_extend_rec ops (hdr db) r sz of (r', h') \<Rightarrow> (r', db\<lparr>hdr := h'\<rparr>))"

definition tdb_entry_remove ::
  "'x htrie_ops \<Rightarrow> 'x TdbHdr TDB \<Rightarrow> u64 \<Rightarrow> tdb_eq_cb option \<Rightarrow> bool \<Rightarrow> 'x TdbHdr TDB" where
  "tdb_entry_remove ops db k eq_cb force =
     db\<lparr>hdr := tdb_htrie_remove ops (hdr db) k eq_cb force\<rparr>"

subsection \<open>Room for the tail of a variable record\<close>

text \<open>
  \<^verbatim>\<open>(*r)->data + (*r)->len - curr_ptr >= tail_len\<close>: the difference of the two
  pointers is a \<^verbatim>\<open>ptrdiff_t\<close> and is converted to \<^verbatim>\<open>size_t\<close> for the comparison, so
  the comparison is the unsigned one on 64-bit words. The store to \<^verbatim>\<open>(*r)->len\<close>
  keeps the low 32 bits. The result is the returned pointer (\<open>None\<close> for null), the
  new value of \<^verbatim>\<open>*r\<close> and the handle.
\<close>

definition tdb_entry_get_room ::
  "'x htrie_ops \<Rightarrow> 'x TdbHdr TDB \<Rightarrow> nat \<Rightarrow> u64 \<Rightarrow> u64 \<Rightarrow> u64
    \<Rightarrow> fault + (u64 option \<times> nat option \<times> 'x TdbHdr TDB)" where
  "tdb_entry_get_room ops db r curr_ptr tail_len tot_size =
     (if length (recs (hdr db)) \<le> r then Inl Oops
      else
        let v = recs (hdr db) ! r in
        if data v + ucast (len v) - curr_ptr \<ge> tail_len then Inr (Some curr_ptr, Some r, db)
        else
          let h1 = (hdr db)\<lparr>recs := (recs (hdr db))[r := v\<lparr>len := ucast (curr_ptr - data v)\<rparr>]\<rparr>
          in case tdb_htrie_extend_rec ops h1 r tot_size of
               (None, h2) \<Rightarrow> Inr (None, None, db\<lparr>hdr := h2\<rparr>)
             | (Some r', h2) \<Rightarrow>
                 if length (recs h2) \<le> r' then Inl Oops
                 else Inr (Some (data (recs h2 ! r')), Some r', db\<lparr>hdr := h2\<rparr>))"

subsection \<open>Lookup and iteration\<close>

definition tdb_rec_get ::
  "'x htrie_ops \<Rightarrow> 'x TdbHdr TDB \<Rightarrow> u64 \<Rightarrow> TdbIter \<times> 'x TdbHdr TDB" where
  "tdb_rec_get ops db k =
     (case tdb_htrie_lookup ops (hdr db) k of
        None \<Rightarrow> (\<lparr>rec = None, bckt = None\<rparr>, db)
      | Some b \<Rightarrow>
          (case tdb_htrie_bscan_for_rec ops (hdr db) b k of
             (r, b', h') \<Rightarrow> (\<lparr>rec = r, bckt = b'\<rparr>, db\<lparr>hdr := h'\<rparr>)))"

definition tdb_rec_next ::
  "'x htrie_ops \<Rightarrow> 'x TdbHdr TDB \<Rightarrow> TdbIter \<Rightarrow> fault + (TdbIter \<times> 'x TdbHdr TDB)" where
  "tdb_rec_next ops db iter =
     (case bckt iter of
        None \<Rightarrow> Inl BUG
      | Some b \<Rightarrow>
          (case rec iter of
             None \<Rightarrow> Inl Oops
           | Some r \<Rightarrow>
               if length (recs (hdr db)) \<le> r then Inl Oops
               else case tdb_htrie_next_rec ops (hdr db) r b (key (recs (hdr db) ! r)) of
                      (r', b', h') \<Rightarrow> Inr (\<lparr>rec = r', bckt = b'\<rparr>, db\<lparr>hdr := h'\<rparr>)))"

definition tdb_rec_put :: "'x htrie_ops \<Rightarrow> 'x TdbHdr TDB \<Rightarrow> nat \<Rightarrow> 'x TdbHdr TDB" where
  "tdb_rec_put ops db r = db\<lparr>hdr := tdb_htrie_put_rec ops (hdr db) r\<rparr>"

definition tdb_rec_keep :: "'x htrie_ops \<Rightarrow> 'x TdbHdr \<Rightarrow> nat \<Rightarrow> fault + 'x TdbHdr" where
  "tdb_rec_keep ops h r =
     (if r < length (recs h)
      then Inr (h\<lparr>recs := (recs h)[r := tdb_htrie_get_rec ops (recs h ! r)]\<rparr>)
      else Inl Oops)"

definition tdb_entry_walk ::
  "'x htrie_ops \<Rightarrow> 'x TdbHdr TDB \<Rightarrow> (TdbRec \<Rightarrow> int) \<Rightarrow> int \<times> 'x TdbHdr TDB" where
  "tdb_entry_walk ops db fn =
     (case tdb_htrie_walk ops (hdr db) fn of (n, h') \<Rightarrow> (n, db\<lparr>hdr := h'\<rparr>))"

subsection \<open>Get or allocate\<close>

text \<open>The macro of \<^verbatim>\<open>tdb.h\<close>: an iterator that holds no record.\<close>

definition TDB_ITER_BAD :: "TdbIter \<Rightarrow> bool" where
  "TDB_ITER_BAD i \<longleftrightarrow> rec i = None"

text \<open>
  The \<^verbatim>\<open>while\<close> loop of \<^verbatim>\<open>tdb_rec_get_alloc\<close>. It ends with the iterator at the first
  record the equality callback accepts, or with a bad iterator; \<open>None\<close> is a loop that
  never ends.
\<close>

partial_function (option) tdb_rec_get_alloc_loop ::
  "'x htrie_ops \<Rightarrow> 'c TdbGetAllocCtx \<Rightarrow> 'x TdbHdr TDB \<Rightarrow> TdbIter
    \<Rightarrow> (fault + (TdbIter \<times> 'x TdbHdr TDB)) option" where
  "tdb_rec_get_alloc_loop ops c db iter =
     (if TDB_ITER_BAD iter then Some (Inr (iter, db))
      else if length (recs (hdr db)) \<le> the (rec iter) then Some (Inl Oops)
      else if eq_rec c (recs (hdr db) ! the (rec iter)) (ctx c) then Some (Inr (iter, db))
      else case tdb_rec_next ops db iter of
             Inl f \<Rightarrow> Some (Inl f)
           | Inr (iter', db') \<Rightarrow> tdb_rec_get_alloc_loop ops c db' iter')"

declare tdb_rec_get_alloc_loop.simps [code]

text \<open>\<^verbatim>\<open>ctx->precreate_rec && ctx->precreate_rec(ctx->ctx)\<close>.\<close>

definition precreate_veto :: "'c TdbGetAllocCtx \<Rightarrow> bool" where
  "precreate_veto c \<longleftrightarrow> (case precreate_rec c of None \<Rightarrow> False | Some p \<Rightarrow> p (ctx c) \<noteq> 0)"

text \<open>
  \<^verbatim>\<open>spin_lock\<close> on a lock that is held never returns in a sequential run: \<open>None\<close>.
  The result is the returned record pointer, the context and the handle.
\<close>

definition tdb_rec_get_alloc ::
  "'x htrie_ops \<Rightarrow> 'x TdbHdr TDB \<Rightarrow> u64 \<Rightarrow> 'c TdbGetAllocCtx
    \<Rightarrow> (fault + (nat option \<times> 'c TdbGetAllocCtx \<times> 'x TdbHdr TDB)) option" where
  "tdb_rec_get_alloc ops db k c =
     (if ga_lock db then None
      else
        let db1 = db\<lparr>ga_lock := True\<rparr>;
            c1 = c\<lparr>is_new := False\<rparr>
        in case tdb_rec_get ops db1 k of (iter0, db2) \<Rightarrow>
           (case tdb_rec_get_alloc_loop ops c1 db2 iter0 of
              None \<Rightarrow> None
            | Some (Inl f) \<Rightarrow> Some (Inl f)
            | Some (Inr (iter, db3)) \<Rightarrow>
                if \<not> TDB_ITER_BAD iter then Some (Inr (rec iter, c1, db3\<lparr>ga_lock := False\<rparr>))
                else if precreate_veto c1
                then Some (Inr (None, c1, db3\<lparr>ga_lock := False\<rparr>))
                else
                  let c2 = c1\<lparr>is_new := True\<rparr> in
                  (case tdb_entry_alloc ops db3 k (ctx_len c2) of
                     Inl f \<Rightarrow> Some (Inl f)
                   | Inr (None, n', db4) \<Rightarrow>
                       Some (Inr (None, c2\<lparr>ctx_len := n'\<rparr>, db4\<lparr>ga_lock := False\<rparr>))
                   | Inr (Some r, n', db4) \<Rightarrow>
                       if length (recs (hdr db4)) \<le> r then Some (Inl Oops)
                       else
                         let h5 = (hdr db4)\<lparr>recs := (recs (hdr db4))
                                    [r := init_rec c2 (recs (hdr db4) ! r) (ctx c2)]\<rparr>
                         in (case tdb_entry_mark_complete ops h5 r of
                               Inl f \<Rightarrow> Some (Inl f)
                             | Inr h6 \<Rightarrow>
                                 Some (Inr (Some r, c2\<lparr>ctx_len := n'\<rparr>,
                                            db4\<lparr>hdr := h6, ga_lock := False\<rparr>))))))"

subsection \<open>Opening a table\<close>

text \<open>
  What \<^verbatim>\<open>tdb_get_db\<close> and \<^verbatim>\<open>tdb_open\<close> use of the headers \<^verbatim>\<open>tdb.h\<close>,
  \<^verbatim>\<open>table.h\<close>, \<^verbatim>\<open>file.h\<close> and \<^verbatim>\<open>htrie.h\<close> and of the kernel: three constants,
  and functions on the state \<open>'w\<close> of the registry, the files and the kernel allocator.
  \<^verbatim>\<open>tdb_file_open\<close> and \<^verbatim>\<open>tdb_htrie_init\<close> return the header pointer they store in
  the handle; \<open>'m\<close> is the mapped header.
\<close>

record ('w, 'm) table_ops =
  TDB_TBLNAME_LEN :: nat
  TDB_PATH_LEN :: nat
  TDB_EXT_BITS :: nat
  tdb_tbl_lookup :: "'w \<Rightarrow> string \<Rightarrow> nat \<Rightarrow> 'm option TDB option"
  kzalloc :: "'w \<Rightarrow> bool"
  tdb_file_open :: "'w \<Rightarrow> 'm option TDB \<Rightarrow> u64 \<Rightarrow> int \<times> 'm option \<times> 'w"
  tdb_file_close :: "'w \<Rightarrow> 'm option TDB \<Rightarrow> 'w"
  tdb_htrie_init :: "'w \<Rightarrow> 'm option \<Rightarrow> u32 \<Rightarrow> 'm option \<times> 'w"
  tdb_tbl_enumerate :: "'w \<Rightarrow> 'm option TDB \<Rightarrow> 'w"
  tdb_put :: "'w \<Rightarrow> 'm option TDB \<Rightarrow> 'w"

text \<open>The macro of \<^verbatim>\<open>tdb.h\<close>; the format strings of \<^verbatim>\<open>tdb_get_db\<close> write the
  same text.\<close>

definition TDB_SUFFIX :: string where
  "TDB_SUFFIX = ''.tdb''"

text \<open>\<^verbatim>\<open>sizeof(TDB_SUFFIX)\<close> counts the terminator.\<close>

definition sizeof_TDB_SUFFIX :: nat where
  "sizeof_TDB_SUFFIX = length TDB_SUFFIX + 1"

text \<open>Modelled from the spec: the macros \<^verbatim>\<open>TDB_EXT_SZ\<close> and \<^verbatim>\<open>TDB_EXT_MASK\<close> are in
  \<^verbatim>\<open>tdb.h\<close>; an extent is a power of two, and the mask selects the extent of an
  offset.\<close>

definition TDB_EXT_SZ :: "('w, 'm) table_ops \<Rightarrow> u64" where
  "TDB_EXT_SZ t = push_bit (TDB_EXT_BITS t) 1"

definition TDB_EXT_MASK :: "('w, 'm) table_ops \<Rightarrow> u64" where
  "TDB_EXT_MASK t = NOT (push_bit (TDB_EXT_BITS t) 1 - 1)"

text \<open>Modelled from the spec: \<^verbatim>\<open>tdb_get\<close> of \<^verbatim>\<open>table.h\<close> takes a share of the handle
  (\<open>close\<close> releases one) and returns the handle.\<close>

definition tdb_get :: "'h TDB \<Rightarrow> 'h TDB" where
  "tdb_get db = db\<lparr>count := count db + 1\<rparr>"

text \<open>The C library: the position of the last occurrence of a character, \<^verbatim>\<open>snprintf\<close>
  into a buffer of \<open>sz\<close> bytes, and the conversion \<^verbatim>\<open>%d\<close>.\<close>

definition strrchr :: "string \<Rightarrow> char \<Rightarrow> nat option" where
  "strrchr s c = find (\<lambda>i. s ! i = c) (rev [0..<length s])"

definition snprintf :: "nat \<Rightarrow> string \<Rightarrow> string" where
  "snprintf sz s = take (sz - 1) s"

fun dec_digits :: "nat \<Rightarrow> string" where
  "dec_digits n =
     (if n < 10 then [''0123456789'' ! n]
      else dec_digits (n div 10) @ [''0123456789'' ! (n mod 10)])"

definition fmt_d :: "int \<Rightarrow> string" where
  "fmt_d i = (if i < 0 then CHR ''-'' # dec_digits (nat (- i)) else dec_digits (nat i))"

text \<open>\<^verbatim>\<open>kzalloc\<close> returns a handle with every field zero.\<close>

definition zeroed_TDB :: "'m option TDB" where
  "zeroed_TDB = \<lparr>hdr = None, ga_lock = False, count = 0, node = 0, path = [], tbl_name = []\<rparr>"

text \<open>
  \<^verbatim>\<open>tdb_get_db\<close>. The path is the text before the terminator. \<^verbatim>\<open>strncmp\<close> reads the
  last \<^verbatim>\<open>sizeof(TDB_SUFFIX) - 1\<close> characters of the path; on a shorter path it would
  read in front of the string, which is a fault in the model. The lengths are the
  \<^verbatim>\<open>int\<close> values of the source, without a bound on the length of the path.
\<close>

definition tdb_get_db ::
  "('w, 'm) table_ops \<Rightarrow> 'w \<Rightarrow> string \<Rightarrow> int \<Rightarrow> fault + ('m option TDB option \<times> 'w)" where
  "tdb_get_db t w p nd =
     (if nd > 9 then Inl BUG
      else
        let full_len = length p in
        if full_len < sizeof_TDB_SUFFIX - 1 then Inl Oops
        else if drop (full_len - (sizeof_TDB_SUFFIX - 1)) p \<noteq> TDB_SUFFIX then Inr (None, w)
        else case strrchr p (CHR ''/'') of
          None \<Rightarrow> Inr (None, w)
        | Some slash \<Rightarrow>
            let l = int full_len - int slash - int sizeof_TDB_SUFFIX in
            if l < 0 then Inl BUG
            else if nat l + sizeof_TDB_SUFFIX \<ge> TDB_TBLNAME_LEN t then Inr (None, w)
            else
              let tbl_nname = snprintf (TDB_TBLNAME_LEN t)
                                (take (nat l) (drop (slash + 1) p) @ fmt_d nd)
              in (case tdb_tbl_lookup t w tbl_nname (nat l + 1) of
                   Some db \<Rightarrow> Inr (Some db, w)
                 | None \<Rightarrow>
                     if \<not> kzalloc t w then Inr (None, w)
                     else
                       let db = zeroed_TDB
                             \<lparr>path := snprintf (TDB_PATH_LEN t)
                                 (take (full_len - (sizeof_TDB_SUFFIX - 1)) p @ fmt_d nd @ ''.tdb''),
                              tbl_name := snprintf (TDB_TBLNAME_LEN t)
                                 (take (nat l) (drop (slash + 1) p) @ fmt_d nd @ ''.tdb'')\<rparr>
                       in Inr (Some (tdb_get db), w)))"

definition tdb_open ::
  "('w, 'm) table_ops \<Rightarrow> 'w \<Rightarrow> string \<Rightarrow> u64 \<Rightarrow> u32 \<Rightarrow> int
    \<Rightarrow> fault + ('m option TDB option \<times> 'w)" where
  "tdb_open t w p fsize rec_size nd =
     (if fsize AND NOT (TDB_EXT_MASK t) \<noteq> 0 \<or> fsize < TDB_EXT_SZ t then Inr (None, w)
      else case tdb_get_db t w p nd of
        Inl f \<Rightarrow> Inl f
      | Inr (None, w1) \<Rightarrow> Inr (None, w1)
      | Inr (Some db0, w1) \<Rightarrow>
          let db = db0\<lparr>node := nd\<rparr> in
          (case tdb_file_open t w1 db fsize of (rc, hdr1, w2) \<Rightarrow>
             let db1 = db\<lparr>hdr := hdr1\<rparr> in
             if rc \<noteq> 0 then Inr (None, tdb_put t w2 db1)
             else (case tdb_htrie_init t w2 (hdr db1) rec_size of (hdr2, w3) \<Rightarrow>
               let db2 = db1\<lparr>hdr := hdr2\<rparr> in
               if hdr2 = None then Inr (None, tdb_put t (tdb_file_close t w3 db2) db2)
               else Inr (Some (db2\<lparr>ga_lock := False\<rparr>), tdb_tbl_enumerate t w3 db2))))"

section \<open>The trie operations, from the specification\<close>

text \<open>
  Modelled from the spec: \<^verbatim>\<open>htrie.c\<close> is not among the sources, so the operations
  below follow the specification text (sections 3, 4.1 to 4.6): the record life cycle
  with its completeness and tombstone flags, the reference counter, the scan of a bucket
  for the records of a key, and an allocator that fails when the mapping is full. The
  trie has one level of fan-out 16 with unbounded overflow chains; a bucket is named by
  its slot, and holds the records of that slot in the order they were placed.
\<close>

record htrie_alloc =
  used :: nat
  capacity :: nat

type_synonym htrie = "htrie_alloc TdbHdr"

text \<open>Modelled from the spec: a record is visible to lookup iff it is complete and not
  tombstoned.\<close>

definition visible :: "TdbRec \<Rightarrow> bool" where
  "visible r \<longleftrightarrow> complete r \<and> \<not> tombstone r"

text \<open>Modelled from the spec: the slot of a key at the first level of the trie.\<close>

definition slot_of :: "u64 \<Rightarrow> nat" where
  "slot_of k = unat (k AND 15)"

text \<open>Modelled from the spec: the descent ends at a bucket once the slot holds a record.\<close>

definition htrie_lookup :: "htrie \<Rightarrow> u64 \<Rightarrow> nat option" where
  "htrie_lookup h k =
     (if list_ex (\<lambda>r. slot_of (key r) = slot_of k) (recs h) then Some (slot_of k) else None)"

text \<open>Modelled from the spec: the first record of bucket \<open>b\<close> at position \<open>i\<close> or later
  that has the full key and is visible.\<close>

definition bucket_scan :: "TdbRec list \<Rightarrow> nat \<Rightarrow> u64 \<Rightarrow> nat \<Rightarrow> nat option" where
  "bucket_scan rs b k i =
     find (\<lambda>j. slot_of (key (rs ! j)) = b \<and> key (rs ! j) = k \<and> visible (rs ! j)) [i..<length rs]"

text \<open>Modelled from the spec: taking and releasing a share of a record.\<close>

definition rec_get_ref :: "TdbRec \<Rightarrow> TdbRec" where
  "rec_get_ref r = r\<lparr>refcnt := refcnt r + 1\<rparr>"

definition rec_put_ref :: "TdbRec \<Rightarrow> TdbRec" where
  "rec_put_ref r = r\<lparr>refcnt := refcnt r - 1\<rparr>"

definition htrie_get_rec :: "htrie \<Rightarrow> nat \<Rightarrow> htrie" where
  "htrie_get_rec h r =
     (if r < length (recs h) then h\<lparr>recs := (recs h)[r := rec_get_ref (recs h ! r)]\<rparr> else h)"

definition htrie_put_rec :: "htrie \<Rightarrow> nat \<Rightarrow> htrie" where
  "htrie_put_rec h r =
     (if r < length (recs h) then h\<lparr>recs := (recs h)[r := rec_put_ref (recs h ! r)]\<rparr> else h)"

text \<open>Modelled from the spec: a scan returns the first match with its reference counter
  incremented; \<open>next\<close> continues behind the record the iterator holds, whose share it
  gives back.\<close>

definition htrie_bscan_for_rec :: "htrie \<Rightarrow> nat \<Rightarrow> u64 \<Rightarrow> nat option \<times> nat option \<times> htrie" where
  "htrie_bscan_for_rec h b k =
     (case bucket_scan (recs h) b k 0 of
        None \<Rightarrow> (None, Some b, h)
      | Some r \<Rightarrow> (Some r, Some b, htrie_get_rec h r))"

definition htrie_next_rec ::
  "htrie \<Rightarrow> nat \<Rightarrow> nat \<Rightarrow> u64 \<Rightarrow> nat option \<times> nat option \<times> htrie" where
  "htrie_next_rec h r b k =
     (let h1 = htrie_put_rec h r in
      case bucket_scan (recs h1) b k (Suc r) of
        None \<Rightarrow> (None, Some b, h1)
      | Some r' \<Rightarrow> (Some r', Some b, htrie_get_rec h1 r'))"

text \<open>Modelled from the spec: tombstone a record and drop the share of the index.\<close>

definition rec_bury :: "TdbRec \<Rightarrow> TdbRec" where
  "rec_bury r = r\<lparr>refcnt := refcnt r - 1, tombstone := True\<rparr>"

text \<open>Modelled from the spec: a record as insert places it, with its data at offset
  \<open>addr\<close> of the mapping, shared by the index and by the caller.\<close>

definition new_rec :: "u64 \<Rightarrow> u64 \<Rightarrow> 8 word list option \<Rightarrow> nat \<Rightarrow> bool \<Rightarrow> TdbRec" where
  "new_rec k n d addr c =
     \<lparr>key = k, chunk_next = None, len = ucast n, data = of_nat addr,
      bytes = (case d of None \<Rightarrow> replicate (unat n) 0 | Some bs \<Rightarrow> take (unat n) bs),
      refcnt = 2, complete = c, tombstone = False\<rparr>"

text \<open>
  Modelled from the spec: insert. The allocation fails when the record does not fit in
  what is left of the mapping or its length does not fit the length field. With an
  equality callback (replace unique) the visible records of the key that the callback
  accepts are tombstoned first. The new record is placed last; it is complete when the
  caller asks for it or when it is small (shorter than the threshold \<open>t\<close>).
\<close>

definition htrie_insert ::
  "u64 \<Rightarrow> htrie \<Rightarrow> u64 \<Rightarrow> 8 word list option \<Rightarrow> tdb_eq_cb option \<Rightarrow> u64 \<Rightarrow> bool
    \<Rightarrow> nat option \<times> u64 \<times> htrie" where
  "htrie_insert t h k d eq_cb n cflag =
     (if 2 ^ 32 \<le> unat n \<or> capacity (priv h) < used (priv h) + unat n then (None, n, h)
      else
        let old = (case eq_cb of
                     None \<Rightarrow> recs h
                   | Some eq \<Rightarrow>
                       map (\<lambda>r. if key r = k \<and> visible r \<and> eq r then rec_bury r else r) (recs h))
        in (Some (length old), n,
            \<lparr>recs = old @ [new_rec k n d (used (priv h)) (cflag \<or> n < t)],
             priv = (priv h)\<lparr>used := used (priv h) + unat n\<rparr>\<rparr>))"

text \<open>Modelled from the spec: the last fragment of the chain that starts at \<open>r\<close>; the
  chain of a mapping with \<open>n\<close> records has at most \<open>n\<close> links.\<close>

fun vrec_tail :: "TdbRec list \<Rightarrow> nat \<Rightarrow> nat \<Rightarrow> nat" where
  "vrec_tail rs 0 r = r"
| "vrec_tail rs (Suc n) r =
     (if r < length rs then (case chunk_next (rs ! r) of None \<Rightarrow> r | Some r' \<Rightarrow> vrec_tail rs n r')
      else r)"

text \<open>Modelled from the spec: extend a variable record by a fragment of \<open>sz\<close> bytes,
  linked after the last fragment.\<close>

definition htrie_extend_rec :: "htrie \<Rightarrow> nat \<Rightarrow> u64 \<Rightarrow> nat option \<times> htrie" where
  "htrie_extend_rec h r sz =
     (let tl = vrec_tail (recs h) (length (recs h)) r in
      if length (recs h) \<le> tl \<or> 2 ^ 32 \<le> unat sz
         \<or> capacity (priv h) < used (priv h) + unat sz then (None, h)
      else
        let new = \<lparr>key = key (recs h ! tl), chunk_next = None, len = ucast sz,
                   data = of_nat (used (priv h)), bytes = replicate (unat sz) 0,
                   refcnt = 0, complete = False, tombstone = False\<rparr>
        in (Some (length (recs h)),
            \<lparr>recs = (recs h)[tl := (recs h ! tl)\<lparr>chunk_next := Some (length (recs h))\<rparr>] @ [new],
             priv = (priv h)\<lparr>used := used (priv h) + unat sz\<rparr>\<rparr>))"

text \<open>Modelled from the spec: remove tombstones the records of the key that the
  callback accepts; an incomplete record is removed with \<open>force\<close> only.\<close>

definition htrie_remove :: "htrie \<Rightarrow> u64 \<Rightarrow> tdb_eq_cb option \<Rightarrow> bool \<Rightarrow> htrie" where
  "htrie_remove h k eq_cb force =
     h\<lparr>recs := map (\<lambda>r. if key r = k \<and> \<not> tombstone r \<and> (complete r \<or> force)
                            \<and> (case eq_cb of None \<Rightarrow> True | Some eq \<Rightarrow> eq r)
                         then rec_bury r else r) (recs h)\<rparr>"

text \<open>Modelled from the spec: walk calls the visitor on the visible records, in the
  order of the mapping; the result is the first non-zero value of the visitor.\<close>

definition htrie_walk :: "htrie \<Rightarrow> (TdbRec \<Rightarrow> int) \<Rightarrow> int \<times> htrie" where
  "htrie_walk h fn =
     (case find (\<lambda>r. fn r \<noteq> 0) (filter visible (recs h)) of
        None \<Rightarrow> (0, h)
      | Some r \<Rightarrow> (fn r, h))"

definition htrie_spec :: "u64 \<Rightarrow> htrie_alloc htrie_ops" where
  "htrie_spec t =
     \<lparr>TDB_HTRIE_MINDREC = t,
      tdb_htrie_insert = htrie_insert t,
      tdb_htrie_lookup = htrie_lookup,
      tdb_htrie_bscan_for_rec = htrie_bscan_for_rec,
      tdb_htrie_next_rec = htrie_next_rec,
      tdb_htrie_extend_rec = htrie_extend_rec,
      tdb_htrie_remove = htrie_remove,
      tdb_htrie_walk = htrie_walk,
      tdb_htrie_put_rec = htrie_put_rec,
      tdb_htrie_get_rec = rec_get_ref,
      tdb_rec_is_complete = complete,
      tdb_rec_mark_complete = (\<lambda>r. r\<lparr>complete := True\<rparr>)\<rparr>"

section \<open>What a lookup yields\<close>

text \<open>
  The iterators a caller can obtain for a key: the one \<^verbatim>\<open>tdb_rec_get\<close> returns, and
  the one \<^verbatim>\<open>tdb_rec_next\<close> makes of an iterator obtained before. Each comes with the
  handle as the call left it.
\<close>

inductive lookup_yields ::
  "'x htrie_ops \<Rightarrow> 'x TdbHdr TDB \<Rightarrow> u64 \<Rightarrow> TdbIter \<Rightarrow> 'x TdbHdr TDB \<Rightarrow> bool"
  for ops :: "'x htrie_ops" and db :: "'x TdbHdr TDB" and k :: u64 where
  get: "tdb_rec_get ops db k = (it, db') \<Longrightarrow> lookup_yields ops db k it db'"
| step: "lookup_yields ops db k it db' \<Longrightarrow> tdb_rec_next ops db' it = Inr (it', db'')
           \<Longrightarrow> lookup_yields ops db k it' db''"

text \<open>
  On the operations of the specification: an iterator for key \<open>k\<close> that holds the
  record at \<open>p\<close>, with the handle then, and what is true of every iterator a lookup
  yields.
\<close>

definition at_rec :: "htrie TDB \<Rightarrow> u64 \<Rightarrow> nat \<Rightarrow> TdbIter \<times> htrie TDB" where
  "at_rec db k p =
     (\<lparr>rec = Some p, bckt = Some (slot_of k)\<rparr>,
      db\<lparr>hdr := \<lparr>recs = (recs (hdr db))[p := rec_get_ref (recs (hdr db) ! p)],
                  priv = priv (hdr db)\<rparr>\<rparr>)"

definition holds :: "htrie TDB \<Rightarrow> u64 \<Rightarrow> TdbIter \<Rightarrow> htrie TDB \<Rightarrow> bool" where
  "holds db k it db' \<longleftrightarrow>
     (case rec it of
        None \<Rightarrow> db' = db
      | Some p \<Rightarrow>
          p < length (recs (hdr db)) \<and> key (recs (hdr db) ! p) = k \<and>
          visible (recs (hdr db) ! p) \<and> (it, db') = at_rec db k p)"

text \<open>
  What the loop of \<^verbatim>\<open>tdb_rec_get_alloc\<close> looks for among the records \<open>rs\<close>: a
  visible record of the key that the equality callback accepts. The callback reads the
  record while the iterator holds it.
\<close>

definition ga_match :: "'c TdbGetAllocCtx \<Rightarrow> u64 \<Rightarrow> TdbRec list \<Rightarrow> nat \<Rightarrow> bool" where
  "ga_match c k rs j \<longleftrightarrow>
     key (rs ! j) = k \<and> visible (rs ! j) \<and> eq_rec c (rec_get_ref (rs ! j)) (ctx c)"

section \<open>Example stores\<close>

text \<open>A handle on a mapping of \<open>cap\<close> bytes with the given records.\<close>

definition ex_db :: "TdbRec list \<Rightarrow> nat \<Rightarrow> htrie TDB" where
  "ex_db rs cap =
     \<lparr>hdr = \<lparr>recs = rs, priv = \<lparr>used = sum_list (map (\<lambda>r. unat (len r)) rs), capacity = cap\<rparr>\<rparr>,
      ga_lock = False, count = 1, node = 0, path = ''/db/cache0.tdb'', tbl_name = ''cache0.tdb''\<rparr>"

text \<open>A record of the index that no iterator holds.\<close>

definition ex_rec :: "u64 \<Rightarrow> 8 word list \<Rightarrow> bool \<Rightarrow> TdbRec" where
  "ex_rec k bs c =
     \<lparr>key = k, chunk_next = None, len = of_nat (length bs), data = 0, bytes = bs,
      refcnt = 1, complete = c, tombstone = False\<rparr>"

text \<open>A cache-like context: records are equal to the context when they hold its bytes,
  and the initialiser writes them.\<close>

definition ex_ctx :: "8 word list \<Rightarrow> u64 \<Rightarrow> (8 word list \<Rightarrow> int) option \<Rightarrow> 8 word list TdbGetAllocCtx" where
  "ex_ctx bs n pre =
     \<lparr>eq_rec = (\<lambda>r c. bytes r = c), precreate_rec = pre,
      init_rec = (\<lambda>r c. r\<lparr>bytes := c\<rparr>), ctx = bs, ctx_len = n, is_new = False\<rparr>"

text \<open>Three records of key 42: the second holds the bytes of the context above but is
  not complete.\<close>

definition ex_cache_db :: "htrie TDB" where
  "ex_cache_db = ex_db [ex_rec 42 [1] True, ex_rec 42 [88] False, ex_rec 42 [88] True] 4096"

text \<open>A fragment of a variable record with its data at address \<open>d\<close>.\<close>

definition ex_frag :: "u64 \<Rightarrow> u32 \<Rightarrow> TdbRec" where
  "ex_frag d l =
     \<lparr>key = 7, chunk_next = None, len = l, data = d, bytes = [],
      refcnt = 2, complete = False, tombstone = False\<rparr>"

text \<open>A variable record of one fragment of 100 bytes at offset 0.\<close>

definition ex_vrec_db :: "htrie TDB" where
  "ex_vrec_db = ex_db [ex_frag 0 100] 4096"

text \<open>
  Modelled from the spec: the registry and the mapped-file provider are not among the
  sources. In this example the registry is the list of the open handles, found by the
  first characters of the table name, and the file provider maps an empty extent of the
  requested size.
\<close>

definition ex_table_ops :: "(htrie option TDB list, htrie) table_ops" where
  "ex_table_ops =
     \<lparr>TDB_TBLNAME_LEN = 32, TDB_PATH_LEN = 128, TDB_EXT_BITS = 21,
      tdb_tbl_lookup = (\<lambda>w nm n. find (\<lambda>db. take n (tbl_name db) = take n nm) w),
      kzalloc = (\<lambda>w. True),
      tdb_file_open =
        (\<lambda>w db fsize. (0, Some \<lparr>recs = [], priv = \<lparr>used = 0, capacity = unat fsize\<rparr>\<rparr>, w)),
      tdb_file_close = (\<lambda>w db. w),
      tdb_htrie_init = (\<lambda>w h rsz. (h, w)),
      tdb_tbl_enumerate = (\<lambda>w db. db # w),
      tdb_put = (\<lambda>w db. w)\<rparr>"

section \<open>Facts about the operations of the specification\<close>

text \<open>The example store with three records.\<close>

lemma ex_recs [simp]:
  "recs (hdr ex_cache_db) = [ex_rec 42 [1] True, ex_rec 42 [88] False, ex_rec 42 [88] True]"
  "ga_lock ex_cache_db = False"
  "priv (hdr ex_cache_db) = \<lparr>used = 3, capacity = 4096\<rparr>"
  by (simp_all add: ex_cache_db_def ex_db_def ex_rec_def)

lemma rec_put_get [simp]: "rec_put_ref (rec_get_ref r) = r"
  by (simp add: rec_put_ref_def rec_get_ref_def)

lemma key_rec_get_ref [simp]: "key (rec_get_ref r) = key r"
  by (simp add: rec_get_ref_def)

lemma visible_rec_get_ref [simp]: "visible (rec_get_ref r) = visible r"
  by (simp add: rec_get_ref_def visible_def)

lemma htrie_put_get:
  "p < length rs \<Longrightarrow>
   htrie_put_rec \<lparr>recs = rs[p := rec_get_ref (rs ! p)], priv = x\<rparr> p = \<lparr>recs = rs, priv = x\<rparr>"
  by (simp add: htrie_put_rec_def)

lemma htrie_get_rec_eq:
  "q < length rs \<Longrightarrow>
   htrie_get_rec \<lparr>recs = rs, priv = x\<rparr> q = \<lparr>recs = rs[q := rec_get_ref (rs ! q)], priv = x\<rparr>"
  by (simp add: htrie_get_rec_def)

text \<open>Searching an interval of positions.\<close>

lemma find_upt_Some:
  assumes "find P [i..<n] = Some q"
  shows "i \<le> q \<and> q < n \<and> P q \<and> (\<forall>j. i \<le> j \<and> j < q \<longrightarrow> \<not> P j)"
proof -
  from assms obtain d where d: "d < n - i" "P (i + d)" "q = i + d" "\<forall>j<d. \<not> P (i + j)"
    by (auto simp: find_Some_iff)
  have "\<not> P j" if "i \<le> j" "j < q" for j
  proof -
    from that d(3) have "j - i < d" by simp
    with d(4) have "\<not> P (i + (j - i))" by blast
    with that show ?thesis by simp
  qed
  with d show ?thesis by auto
qed

lemma find_upt_skip:
  "i \<le> q \<Longrightarrow> q \<le> n \<Longrightarrow> (\<forall>j. i \<le> j \<and> j < q \<longrightarrow> \<not> P j) \<Longrightarrow> find P [i..<n] = find P [q..<n]"
proof (induction "q - i" arbitrary: i)
  case 0
  then show ?case by simp
next
  case (Suc d)
  then have "i < n" "\<not> P i" by auto
  then have "find P [i..<n] = find P [Suc i..<n]"
    by (simp add: upt_conv_Cons)
  also have "\<dots> = find P [q..<n]"
    using Suc by (intro Suc.hyps(1)) auto
  finally show ?case .
qed

lemma find_upt_hit: "q < n \<Longrightarrow> P q \<Longrightarrow> find P [q..<n] = Some q"
  by (simp add: upt_conv_Cons)

lemma find_upt_None: "(\<forall>j. i \<le> j \<and> j < n \<longrightarrow> \<not> P j) \<Longrightarrow> find P [i..<n] = None"
  by (auto simp: find_None_iff)

lemma bucket_scan_Some:
  "bucket_scan rs b k i = Some q \<Longrightarrow>
   i \<le> q \<and> q < length rs \<and> slot_of (key (rs ! q)) = b \<and> key (rs ! q) = k \<and> visible (rs ! q)
   \<and> (\<forall>j. i \<le> j \<and> j < q \<longrightarrow> \<not> (slot_of (key (rs ! j)) = b \<and> key (rs ! j) = k \<and> visible (rs ! j)))"
  unfolding bucket_scan_def by (drule find_upt_Some) blast

lemma bucket_scan_None:
  "bucket_scan rs b k i = None \<Longrightarrow>
   (\<forall>j. i \<le> j \<and> j < length rs \<longrightarrow> \<not> (slot_of (key (rs ! j)) = b \<and> key (rs ! j) = k \<and> visible (rs ! j)))"
  unfolding bucket_scan_def find_None_iff
  by auto

text \<open>One step of an iterator that holds the record at \<open>p\<close>.\<close>

lemma tdb_rec_next_spec:
  assumes "hdr db = \<lparr>recs = rs[p := rec_get_ref (rs ! p)], priv = x\<rparr>" "p < length rs"
    and "key (rs ! p) = k"
  shows "tdb_rec_next (htrie_spec t) db \<lparr>rec = Some p, bckt = Some b\<rparr> =
    Inr (case bucket_scan rs b k (Suc p) of
           None \<Rightarrow> (\<lparr>rec = None, bckt = Some b\<rparr>, db\<lparr>hdr := \<lparr>recs = rs, priv = x\<rparr>\<rparr>)
         | Some q \<Rightarrow> (\<lparr>rec = Some q, bckt = Some b\<rparr>,
                      db\<lparr>hdr := \<lparr>recs = rs[q := rec_get_ref (rs ! q)], priv = x\<rparr>\<rparr>))"
  using assms
  by (auto simp: tdb_rec_next_def htrie_spec_def htrie_next_rec_def htrie_put_get Let_def
        htrie_get_rec_eq split: option.splits dest: bucket_scan_Some)

section \<open>The loop of get-or-allocate\<close>

lemma loop_bad:
  "tdb_rec_get_alloc_loop ops c db \<lparr>rec = None, bckt = b\<rparr> = Some (Inr (\<lparr>rec = None, bckt = b\<rparr>, db))"
  by (subst tdb_rec_get_alloc_loop.simps) (simp add: TDB_ITER_BAD_def)

text \<open>
  On the operations of the specification the loop ends: from an iterator at \<open>p\<close> it
  stops at the first record at \<open>p\<close> or later that the callback accepts, and every record
  it passed has its share back.
\<close>

lemma loop_spec:
  assumes "hdr db = \<lparr>recs = rs[p := rec_get_ref (rs ! p)], priv = x\<rparr>" "p < length rs"
    and "key (rs ! p) = k" "visible (rs ! p)"
  shows "tdb_rec_get_alloc_loop (htrie_spec t) c db \<lparr>rec = Some p, bckt = Some (slot_of k)\<rparr> =
     Some (Inr (case find (ga_match c k rs) [p..<length rs] of
          None \<Rightarrow> (\<lparr>rec = None, bckt = Some (slot_of k)\<rparr>, db\<lparr>hdr := \<lparr>recs = rs, priv = x\<rparr>\<rparr>)
        | Some q \<Rightarrow> (\<lparr>rec = Some q, bckt = Some (slot_of k)\<rparr>,
                     db\<lparr>hdr := \<lparr>recs = rs[q := rec_get_ref (rs ! q)], priv = x\<rparr>\<rparr>)))"
  using assms
proof (induction "length rs - p" arbitrary: p db rule: less_induct)
  case less
  note h = less.prems(1) and p = less.prems(2) and kp = less.prems(3) and vp = less.prems(4)
  let ?it = "\<lparr>rec = Some p, bckt = Some (slot_of k)\<rparr>"
  have cur: "recs (hdr db) ! p = rec_get_ref (rs ! p)" "length (recs (hdr db)) = length rs"
    using h p by simp_all
  show ?case
  proof (cases "eq_rec c (rec_get_ref (rs ! p)) (ctx c)")
    case True
    with kp vp have "ga_match c k rs p" by (simp add: ga_match_def)
    with p have f: "find (ga_match c k rs) [p..<length rs] = Some p"
      by (rule find_upt_hit)
    have "db\<lparr>hdr := \<lparr>recs = rs[p := rec_get_ref (rs ! p)], priv = x\<rparr>\<rparr> = db"
      using h by simp
    with True cur p f show ?thesis
      by (subst tdb_rec_get_alloc_loop.simps) (simp add: TDB_ITER_BAD_def)
  next
    case False
    then have nm: "\<not> ga_match c k rs p" by (simp add: ga_match_def)
    have step: "tdb_rec_get_alloc_loop (htrie_spec t) c db ?it =
       (case tdb_rec_next (htrie_spec t) db ?it of
          Inl f \<Rightarrow> Some (Inl f)
        | Inr (iter', db') \<Rightarrow> tdb_rec_get_alloc_loop (htrie_spec t) c db' iter')"
      using False cur p
      by (subst tdb_rec_get_alloc_loop.simps) (simp add: TDB_ITER_BAD_def)
    note nx = tdb_rec_next_spec[OF h p kp, of t "slot_of k"]
    show ?thesis
    proof (cases "bucket_scan rs (slot_of k) k (Suc p)")
      case None
      from bucket_scan_None[OF None] nm
      have "\<forall>j. p \<le> j \<and> j < length rs \<longrightarrow> \<not> ga_match c k rs j"
        by (metis Suc_leI ga_match_def le_neq_implies_less)
      then have f: "find (ga_match c k rs) [p..<length rs] = None"
        by (rule find_upt_None)
      show ?thesis
        unfolding step nx None f by (simp add: loop_bad)
    next
      case (Some q)
      from bucket_scan_Some[OF Some]
      have q: "Suc p \<le> q" "q < length rs" "key (rs ! q) = k" "visible (rs ! q)"
        and nb: "\<forall>j. Suc p \<le> j \<and> j < q \<longrightarrow> \<not> ga_match c k rs j"
        by (auto simp: ga_match_def)
      from nb nm have "\<forall>j. p \<le> j \<and> j < q \<longrightarrow> \<not> ga_match c k rs j"
        by (metis Suc_leI le_neq_implies_less)
      with q have f: "find (ga_match c k rs) [p..<length rs] = find (ga_match c k rs) [q..<length rs]"
        by (intro find_upt_skip) auto
      let ?db' = "db\<lparr>hdr := \<lparr>recs = rs[q := rec_get_ref (rs ! q)], priv = x\<rparr>\<rparr>"
      have "tdb_rec_get_alloc_loop (htrie_spec t) c ?db' \<lparr>rec = Some q, bckt = Some (slot_of k)\<rparr> =
        Some (Inr (case find (ga_match c k rs) [q..<length rs] of
          None \<Rightarrow> (\<lparr>rec = None, bckt = Some (slot_of k)\<rparr>, ?db'\<lparr>hdr := \<lparr>recs = rs, priv = x\<rparr>\<rparr>)
        | Some q' \<Rightarrow> (\<lparr>rec = Some q', bckt = Some (slot_of k)\<rparr>,
                     ?db'\<lparr>hdr := \<lparr>recs = rs[q' := rec_get_ref (rs ! q')], priv = x\<rparr>\<rparr>)))"
        using q p by (intro less.hyps) auto
      then show ?thesis
        unfolding step nx Some f by (simp split: option.splits)
    qed
  qed
qed

section \<open>Malformed arguments\<close>

text \<open>
  C4, as the code has it. A null data buffer given to \<^verbatim>\<open>tdb_entry_create\<close>, and a
  length below \<^verbatim>\<open>TDB_HTRIE_MINDREC\<close> given to \<^verbatim>\<open>tdb_entry_alloc\<close> or
  \<^verbatim>\<open>tdb_entry_alloc_unique\<close>, fire \<^verbatim>\<open>BUG_ON\<close>, and nothing else does. On every
  other argument the three functions return what \<^verbatim>\<open>tdb_htrie_insert\<close> returns, a
  record pointer or null: there is no error kind.
\<close>

theorem tdb_entry_bad_input_BUG:
  "(tdb_entry_create ops db k d n = Inl BUG \<longleftrightarrow> d = None) \<and>
   (tdb_entry_alloc ops db k n = Inl BUG \<longleftrightarrow> n < TDB_HTRIE_MINDREC ops) \<and>
   (tdb_entry_alloc_unique ops db k n eq_cb = Inl BUG \<longleftrightarrow> n < TDB_HTRIE_MINDREC ops) \<and>
   (d \<noteq> None \<longrightarrow>
      (\<exists>r n' h'. tdb_htrie_insert ops (hdr db) k d None n True = (r, n', h') \<and>
         tdb_entry_create ops db k d n = Inr (r, n', db\<lparr>hdr := h'\<rparr>))) \<and>
   (\<not> n < TDB_HTRIE_MINDREC ops \<longrightarrow>
      (\<exists>r n' h'. tdb_htrie_insert ops (hdr db) k None None n False = (r, n', h') \<and>
         tdb_entry_alloc ops db k n = Inr (r, n', db\<lparr>hdr := h'\<rparr>)) \<and>
      (\<exists>r n' h'. tdb_htrie_insert ops (hdr db) k None eq_cb n False = (r, n', h') \<and>
         tdb_entry_alloc_unique ops db k n eq_cb = Inr (r, n', db\<lparr>hdr := h'\<rparr>)))"
  by (auto simp: tdb_entry_create_def tdb_entry_alloc_def tdb_entry_alloc_unique_def
           split: prod.splits)

theorem tdb_entry_bad_input_BUG_witness:
  "Some [97] \<noteq> (None :: 8 word list option) \<and> \<not> (100 :: u64) < TDB_HTRIE_MINDREC (htrie_spec 64) \<and>
   tdb_entry_create (htrie_spec 64) (ex_db [] 4096) 0x1111 (Some [97]) 100 \<noteq> Inl BUG \<and>
   tdb_entry_alloc (htrie_spec 64) (ex_db [] 4096) 0x1111 100 \<noteq> Inl BUG \<and>
   tdb_entry_alloc_unique (htrie_spec 64) (ex_db [] 4096) 0x1111 100 None \<noteq> Inl BUG"
  using tdb_entry_bad_input_BUG[of "htrie_spec 64" "ex_db [] 4096" "0x1111" "Some [97]" 100 None]
  by (simp add: htrie_spec_def)

text \<open>
  C4, as the claim states it, fails: a null data buffer and a length of 5 below a
  threshold of 64 stop the kernel instead of being reported to the caller.
\<close>

theorem tdb_entry_bad_input_not_reported:
  "tdb_entry_create (htrie_spec 64) (ex_db [] 4096) 0x1111 None 5 = Inl BUG \<and>
   tdb_entry_alloc (htrie_spec 64) (ex_db [] 4096) 0x1111 5 = Inl BUG \<and>
   tdb_entry_alloc_unique (htrie_spec 64) (ex_db [] 4096) 0x1111 5 None = Inl BUG"
  by (simp add: tdb_entry_create_def tdb_entry_alloc_def tdb_entry_alloc_unique_def htrie_spec_def)

section \<open>The flag of get-or-allocate\<close>

text \<open>
  C10. Let the lock be free and the loop of \<^verbatim>\<open>tdb_rec_get_alloc\<close> end, with the
  iterator \<open>it\<close>. When the iterator holds a record, the function returns it with
  \<^verbatim>\<open>is_new\<close> false. When it holds none and the precreate callback vetoes, the
  function returns null with the flag false. When it holds none, there is no veto and
  \<^verbatim>\<open>tdb_entry_alloc\<close> returns null, the function returns null with the flag true.
  So whenever the function returns, the flag is true exactly when it went on to
  allocate, whether or not a record was created.
\<close>

theorem tdb_rec_get_alloc_is_new:
  fixes db :: "'x TdbHdr TDB" and c :: "'c TdbGetAllocCtx"
  assumes nl: "\<not> ga_lock db"
    and g: "tdb_rec_get ops (db\<lparr>ga_lock := True\<rparr>) k = (it0, db2)"
    and l: "tdb_rec_get_alloc_loop ops (c\<lparr>is_new := False\<rparr>) db2 it0 = Some (Inr (it, db3))"
  shows "(\<not> TDB_ITER_BAD it \<longrightarrow>
            tdb_rec_get_alloc ops db k c =
              Some (Inr (rec it, c\<lparr>is_new := False\<rparr>, db3\<lparr>ga_lock := False\<rparr>))) \<and>
         (TDB_ITER_BAD it \<and> precreate_veto c \<longrightarrow>
            tdb_rec_get_alloc ops db k c =
              Some (Inr (None, c\<lparr>is_new := False\<rparr>, db3\<lparr>ga_lock := False\<rparr>))) \<and>
         (TDB_ITER_BAD it \<and> \<not> precreate_veto c \<and>
          tdb_entry_alloc ops db3 k (ctx_len c) = Inr (None, n', db4) \<longrightarrow>
            tdb_rec_get_alloc ops db k c =
              Some (Inr (None, c\<lparr>is_new := True, ctx_len := n'\<rparr>, db4\<lparr>ga_lock := False\<rparr>))) \<and>
         (tdb_rec_get_alloc ops db k c = Some (Inr (r, c', db')) \<longrightarrow>
            is_new c' = (TDB_ITER_BAD it \<and> \<not> precreate_veto c))"
proof -
  have v: "precreate_veto (c\<lparr>is_new := False\<rparr>) = precreate_veto c"
    by (simp add: precreate_veto_def split: option.splits)
  have a: "\<not> TDB_ITER_BAD it \<longrightarrow>
            tdb_rec_get_alloc ops db k c =
              Some (Inr (rec it, c\<lparr>is_new := False\<rparr>, db3\<lparr>ga_lock := False\<rparr>))"
    using nl g l by (simp add: tdb_rec_get_alloc_def)
  have b: "TDB_ITER_BAD it \<and> precreate_veto c \<longrightarrow>
            tdb_rec_get_alloc ops db k c =
              Some (Inr (None, c\<lparr>is_new := False\<rparr>, db3\<lparr>ga_lock := False\<rparr>))"
    using nl g l v by (simp add: tdb_rec_get_alloc_def)
  have d: "TDB_ITER_BAD it \<and> \<not> precreate_veto c \<and>
          tdb_entry_alloc ops db3 k (ctx_len c) = Inr (None, n', db4) \<longrightarrow>
            tdb_rec_get_alloc ops db k c =
              Some (Inr (None, c\<lparr>is_new := True, ctx_len := n'\<rparr>, db4\<lparr>ga_lock := False\<rparr>))"
    using nl g l v by (simp add: tdb_rec_get_alloc_def)
  have e: "tdb_rec_get_alloc ops db k c = Some (Inr (r, c', db')) \<longrightarrow>
            is_new c' = (TDB_ITER_BAD it \<and> \<not> precreate_veto c)"
    using nl g l v
    by (auto simp: tdb_rec_get_alloc_def Let_def
             split: if_splits prod.splits option.splits sum.splits)
  from a b d e show ?thesis by blast
qed

text \<open>A mapping with no room left: the allocation fails, null is returned and the flag
  is true.\<close>

theorem tdb_rec_get_alloc_is_new_witness:
  "\<not> ga_lock (ex_db [] 0) \<and>
   tdb_rec_get (htrie_spec 64) ((ex_db [] 0)\<lparr>ga_lock := True\<rparr>) 42 =
     (\<lparr>rec = None, bckt = None\<rparr>, (ex_db [] 0)\<lparr>ga_lock := True\<rparr>) \<and>
   tdb_rec_get_alloc_loop (htrie_spec 64) ((ex_ctx [88] 100 None)\<lparr>is_new := False\<rparr>)
       ((ex_db [] 0)\<lparr>ga_lock := True\<rparr>) \<lparr>rec = None, bckt = None\<rparr> =
     Some (Inr (\<lparr>rec = None, bckt = None\<rparr>, (ex_db [] 0)\<lparr>ga_lock := True\<rparr>)) \<and>
   TDB_ITER_BAD \<lparr>rec = None, bckt = None\<rparr> \<and> \<not> precreate_veto (ex_ctx [88] 100 None) \<and>
   tdb_entry_alloc (htrie_spec 64) ((ex_db [] 0)\<lparr>ga_lock := True\<rparr>) 42 100 =
     Inr (None, 100, (ex_db [] 0)\<lparr>ga_lock := True\<rparr>) \<and>
   tdb_rec_get_alloc (htrie_spec 64) (ex_db [] 0) 42 (ex_ctx [88] 100 None) =
     Some (Inr (None, (ex_ctx [88] 100 None)\<lparr>is_new := True\<rparr>, ex_db [] 0)) \<and>
   is_new ((ex_ctx [88] 100 None)\<lparr>is_new := True\<rparr>)"
proof -
  have nl: "\<not> ga_lock (ex_db [] 0)" by (simp add: ex_db_def)
  have g: "tdb_rec_get (htrie_spec 64) ((ex_db [] 0)\<lparr>ga_lock := True\<rparr>) 42 =
     (\<lparr>rec = None, bckt = None\<rparr>, (ex_db [] 0)\<lparr>ga_lock := True\<rparr>)"
    by (simp add: tdb_rec_get_def htrie_spec_def htrie_lookup_def ex_db_def)
  have l: "tdb_rec_get_alloc_loop (htrie_spec 64) ((ex_ctx [88] 100 None)\<lparr>is_new := False\<rparr>)
       ((ex_db [] 0)\<lparr>ga_lock := True\<rparr>) \<lparr>rec = None, bckt = None\<rparr> =
     Some (Inr (\<lparr>rec = None, bckt = None\<rparr>, (ex_db [] 0)\<lparr>ga_lock := True\<rparr>))"
    by (rule loop_bad)
  have b: "TDB_ITER_BAD \<lparr>rec = None, bckt = None\<rparr>" by (simp add: TDB_ITER_BAD_def)
  have v: "\<not> precreate_veto (ex_ctx [88] 100 None)" by (simp add: precreate_veto_def ex_ctx_def)
  have al: "tdb_entry_alloc (htrie_spec 64) ((ex_db [] 0)\<lparr>ga_lock := True\<rparr>) 42
              (ctx_len (ex_ctx [88] 100 None)) =
     Inr (None, 100, (ex_db [] 0)\<lparr>ga_lock := True\<rparr>)"
    by (simp add: tdb_entry_alloc_def htrie_spec_def htrie_insert_def ex_db_def ex_ctx_def)
  have u: "(ex_db [] 0)\<lparr>ga_lock := True, ga_lock := False\<rparr> = ex_db [] 0"
    by (simp add: ex_db_def)
  have cl: "(ex_ctx [88] 100 None)\<lparr>is_new := True, ctx_len := 100\<rparr> = (ex_ctx [88] 100 None)\<lparr>is_new := True\<rparr>"
    by (simp add: ex_ctx_def)
  from tdb_rec_get_alloc_is_new[OF nl g l, where n'=100
      and ?db4.0="(ex_db [] 0)\<lparr>ga_lock := True\<rparr>"] b v al
  have r: "tdb_rec_get_alloc (htrie_spec 64) (ex_db [] 0) 42 (ex_ctx [88] 100 None) =
     Some (Inr (None, (ex_ctx [88] 100 None)\<lparr>is_new := True\<rparr>, ex_db [] 0))"
    by (simp add: u cl)
  have al': "tdb_entry_alloc (htrie_spec 64) ((ex_db [] 0)\<lparr>ga_lock := True\<rparr>) 42 100 =
     Inr (None, 100, (ex_db [] 0)\<lparr>ga_lock := True\<rparr>)"
    using al by (simp add: ex_ctx_def)
  from nl g l b v al' r show ?thesis by simp
qed

section \<open>Lookup on the operations of the specification\<close>

lemma ga_match_is_new [simp]: "ga_match (c\<lparr>is_new := b\<rparr>) = ga_match c"
  by (simp add: ga_match_def fun_eq_iff)

lemma hdr_eta: "\<lparr>recs = recs h, priv = priv h\<rparr> = (h :: 'x TdbHdr)"
  by simp

text \<open>The first scan of a key.\<close>

lemma first_scan:
  "bucket_scan rs (slot_of k) k 0 = find (\<lambda>j. key (rs ! j) = k \<and> visible (rs ! j)) [0..<length rs]"
  unfolding bucket_scan_def by (rule find_cong) auto

lemma no_bucket:
  assumes "\<not> list_ex (\<lambda>r. slot_of (key r) = slot_of k) rs"
  shows "find (\<lambda>j. key (rs ! j) = k \<and> visible (rs ! j)) [0..<length rs] = None"
proof -
  have "\<not> (key (rs ! j) = k \<and> visible (rs ! j))" if "j < length rs" for j
    using assms that by (auto simp: list_ex_iff)
  then show ?thesis by (auto simp: find_None_iff)
qed

lemma tdb_rec_get_spec_eq:
  "tdb_rec_get (htrie_spec t) db k =
     (case find (\<lambda>j. key (recs (hdr db) ! j) = k \<and> visible (recs (hdr db) ! j))
             [0..<length (recs (hdr db))] of
        None \<Rightarrow> (\<lparr>rec = None, bckt = htrie_lookup (hdr db) k\<rparr>, db)
      | Some p \<Rightarrow> (\<lparr>rec = Some p, bckt = Some (slot_of k)\<rparr>,
                   db\<lparr>hdr := htrie_get_rec (hdr db) p\<rparr>))"
proof (cases "list_ex (\<lambda>r. slot_of (key r) = slot_of k) (recs (hdr db))")
  case True
  then show ?thesis
    by (simp add: tdb_rec_get_def htrie_spec_def htrie_lookup_def htrie_bscan_for_rec_def
          first_scan split: option.splits)
next
  case False
  from no_bucket[OF False] False show ?thesis
    by (simp add: tdb_rec_get_def htrie_spec_def htrie_lookup_def)
qed

text \<open>For every implementation of the trie: without a bucket the iterator is null and
  nothing has changed.\<close>

lemma tdb_rec_get_no_bucket:
  "tdb_htrie_lookup ops (hdr db) k = None \<Longrightarrow>
   tdb_rec_get ops db k = (\<lparr>rec = None, bckt = None\<rparr>, db)"
  by (simp add: tdb_rec_get_def)

text \<open>
  C6. \<^verbatim>\<open>tdb_rec_get\<close> on the operations of the specification. When the key has no
  bucket, or no record of the key is complete and not tombstoned, the record pointer of
  the iterator is null and the handle is unchanged. Otherwise the iterator points to such
  a record, and the reference counter of that record, and nothing else, has changed: it
  is one more.
\<close>

theorem tdb_rec_get_refcount:
  fixes db :: "htrie TDB"
  assumes "tdb_rec_get (htrie_spec t) db k = (it, db')"
  shows "if htrie_lookup (hdr db) k = None \<or>
            \<not> (\<exists>p < length (recs (hdr db)).
                  key (recs (hdr db) ! p) = k \<and> complete (recs (hdr db) ! p) \<and>
                  \<not> tombstone (recs (hdr db) ! p))
         then rec it = None \<and> db' = db
         else \<exists>p. rec it = Some p \<and> p < length (recs (hdr db)) \<and>
                key (recs (hdr db) ! p) = k \<and> complete (recs (hdr db) ! p) \<and>
                \<not> tombstone (recs (hdr db) ! p) \<and>
                refcnt (recs (hdr db') ! p) = refcnt (recs (hdr db) ! p) + 1 \<and>
                db' = db\<lparr>hdr := (hdr db)\<lparr>recs := (recs (hdr db))
                         [p := (recs (hdr db) ! p)\<lparr>refcnt := refcnt (recs (hdr db) ! p) + 1\<rparr>]\<rparr>\<rparr>"
proof (cases "find (\<lambda>j. key (recs (hdr db) ! j) = k \<and> visible (recs (hdr db) ! j))
               [0..<length (recs (hdr db))]")
  case None
  then have "\<not> (\<exists>p < length (recs (hdr db)).
                    key (recs (hdr db) ! p) = k \<and> complete (recs (hdr db) ! p) \<and>
                  \<not> tombstone (recs (hdr db) ! p))"
    by (auto simp: find_None_iff visible_def)
  with assms None show ?thesis
    by (auto simp: tdb_rec_get_spec_eq)
next
  case (Some p)
  from find_upt_Some[OF Some]
  have p: "p < length (recs (hdr db))" "key (recs (hdr db) ! p) = k"
    "complete (recs (hdr db) ! p)" "\<not> tombstone (recs (hdr db) ! p)"
    by (auto simp: visible_def)
  then have "list_ex (\<lambda>r. slot_of (key r) = slot_of k) (recs (hdr db))"
    by (auto simp: list_ex_iff intro!: bexI[of _ "recs (hdr db) ! p"])
  then have b: "htrie_lookup (hdr db) k \<noteq> None"
    by (simp add: htrie_lookup_def)
  from p have ex: "\<exists>p < length (recs (hdr db)).
                  key (recs (hdr db) ! p) = k \<and> complete (recs (hdr db) ! p) \<and>
                  \<not> tombstone (recs (hdr db) ! p)" by blast
  from assms Some p have "rec it = Some p \<and>
      refcnt (recs (hdr db') ! p) = refcnt (recs (hdr db) ! p) + 1 \<and>
      db' = db\<lparr>hdr := (hdr db)\<lparr>recs := (recs (hdr db))
                [p := (recs (hdr db) ! p)\<lparr>refcnt := refcnt (recs (hdr db) ! p) + 1\<rparr>]\<rparr>\<rparr>"
    by (auto simp: tdb_rec_get_spec_eq htrie_get_rec_def rec_get_ref_def)
  with p b ex show ?thesis by auto
qed

text \<open>In the example store key 42 is found at the first record; key \<open>0x3333\<close> has no
  bucket.\<close>

theorem tdb_rec_get_refcount_witness:
  "tdb_rec_get (htrie_spec 64) ex_cache_db 42 =
     (\<lparr>rec = Some 0, bckt = Some 10\<rparr>,
      ex_cache_db\<lparr>hdr := (hdr ex_cache_db)\<lparr>recs :=
         [(ex_rec 42 [1] True)\<lparr>refcnt := 2\<rparr>, ex_rec 42 [88] False, ex_rec 42 [88] True]\<rparr>\<rparr>) \<and>
   refcnt ((ex_rec 42 [1] True)\<lparr>refcnt := 2\<rparr>) = refcnt (ex_rec 42 [1] True) + 1 \<and>
   tdb_rec_get (htrie_spec 64) ex_cache_db 0x3333 = (\<lparr>rec = None, bckt = None\<rparr>, ex_cache_db) \<and>
   htrie_lookup (hdr ex_cache_db) 0x3333 = None"
proof -
  have g: "tdb_rec_get (htrie_spec 64) ex_cache_db 42 =
     (\<lparr>rec = Some 0, bckt = Some 10\<rparr>,
      ex_cache_db\<lparr>hdr := (hdr ex_cache_db)\<lparr>recs :=
         [(ex_rec 42 [1] True)\<lparr>refcnt := 2\<rparr>, ex_rec 42 [88] False, ex_rec 42 [88] True]\<rparr>\<rparr>)"
    by (simp add: tdb_rec_get_def htrie_spec_def htrie_lookup_def htrie_bscan_for_rec_def
          bucket_scan_def slot_of_def visible_def htrie_get_rec_def rec_get_ref_def ex_rec_def
          upt_rec[of 0])
  have n: "tdb_rec_get (htrie_spec 64) ex_cache_db 0x3333 = (\<lparr>rec = None, bckt = None\<rparr>, ex_cache_db)"
    by (simp add: tdb_rec_get_def htrie_spec_def htrie_lookup_def slot_of_def ex_rec_def)
  from tdb_rec_get_refcount[OF g] tdb_rec_get_refcount[OF n] g n show ?thesis
    by (simp add: ex_rec_def htrie_lookup_def slot_of_def)
qed

text \<open>The scan of get-or-allocate on the operations of the specification.\<close>

lemma scan_spec:
  fixes db :: "htrie TDB"
  shows "\<exists>b. (case tdb_rec_get (htrie_spec t) db k of
            (it0, db2) \<Rightarrow> tdb_rec_get_alloc_loop (htrie_spec t) c db2 it0) =
     Some (Inr (case find (ga_match c k (recs (hdr db))) [0..<length (recs (hdr db))] of
          None \<Rightarrow> (\<lparr>rec = None, bckt = b\<rparr>, db)
        | Some q \<Rightarrow> (\<lparr>rec = Some q, bckt = Some (slot_of k)\<rparr>,
                     db\<lparr>hdr := (hdr db)\<lparr>recs := (recs (hdr db))
                                      [q := rec_get_ref (recs (hdr db) ! q)]\<rparr>\<rparr>)))"
proof -
  let ?rs = "recs (hdr db)"
  let ?S = "\<lambda>j. key (?rs ! j) = k \<and> visible (?rs ! j)"
  have upd: "(hdr db)\<lparr>recs := rs'\<rparr> = \<lparr>recs = rs', priv = priv (hdr db)\<rparr>" for rs'
    by (cases "hdr db") simp
  show ?thesis
  proof (cases "find ?S [0..<length ?rs]")
    case None
    then have "\<forall>j. 0 \<le> j \<and> j < length ?rs \<longrightarrow> \<not> ga_match c k ?rs j"
      by (auto simp: find_None_iff ga_match_def)
    then have "find (ga_match c k ?rs) [0..<length ?rs] = None"
      by (rule find_upt_None)
    with None show ?thesis
      by (simp add: tdb_rec_get_spec_eq loop_bad)
  next
    case (Some p)
    from find_upt_Some[OF Some]
    have p: "p < length ?rs" "key (?rs ! p) = k" "visible (?rs ! p)"
      and np: "\<forall>j. 0 \<le> j \<and> j < p \<longrightarrow> \<not> ga_match c k ?rs j"
      by (auto simp: ga_match_def)
    let ?db2 = "db\<lparr>hdr := htrie_get_rec (hdr db) p\<rparr>"
    have h2: "hdr ?db2 = \<lparr>recs = ?rs[p := rec_get_ref (?rs ! p)], priv = priv (hdr db)\<rparr>"
      using p by (simp add: htrie_get_rec_def upd)
    have f: "find (ga_match c k ?rs) [0..<length ?rs] = find (ga_match c k ?rs) [p..<length ?rs]"
      using p np by (intro find_upt_skip) auto
    have e: "\<lparr>recs = ?rs, priv = priv (hdr db)\<rparr> = hdr db" by simp
    show ?thesis
      using Some
      by (simp add: tdb_rec_get_spec_eq loop_spec[OF h2 p] f upd e split: option.splits)
  qed
qed

lemma unlock_id: "\<not> ga_lock db \<Longrightarrow> db\<lparr>ga_lock := False\<rparr> = db"
  by (cases db) simp

lemma precreate_veto_is_new [simp]: "precreate_veto (c\<lparr>is_new := b\<rparr>) = precreate_veto c"
  by (simp add: precreate_veto_def split: option.splits)

section \<open>Get or allocate on the operations of the specification\<close>

text \<open>
  C1. With the lock free, \<^verbatim>\<open>tdb_rec_get_alloc\<close> returns. When a visible record of
  the key is accepted by the equality callback, it returns the first such record with
  its reference counter incremented, and \<^verbatim>\<open>is_new\<close> is false. Otherwise a veto of
  the precreate callback gives null with the flag false; a length below the threshold
  fires the assertion of \<^verbatim>\<open>tdb_entry_alloc\<close>; a failed allocation gives null with
  the flag true; and else a new record of the requested length is placed behind the
  others, the initialiser is applied to it, it is marked complete and returned with the
  flag true.
\<close>

theorem tdb_rec_get_alloc_spec:
  fixes db :: "htrie TDB" and c :: "'c TdbGetAllocCtx"
  assumes nl: "\<not> ga_lock db"
  shows "tdb_rec_get_alloc (htrie_spec t) db k c =
     (case find (ga_match c k (recs (hdr db))) [0..<length (recs (hdr db))] of
        Some p \<Rightarrow>
          Some (Inr (Some p, c\<lparr>is_new := False\<rparr>,
                     db\<lparr>hdr := (hdr db)\<lparr>recs := (recs (hdr db))
                                      [p := rec_get_ref (recs (hdr db) ! p)]\<rparr>\<rparr>))
      | None \<Rightarrow>
          if precreate_veto c then Some (Inr (None, c\<lparr>is_new := False\<rparr>, db))
          else if ctx_len c < t then Some (Inl BUG)
          else if 2 ^ 32 \<le> unat (ctx_len c)
                  \<or> capacity (priv (hdr db)) < used (priv (hdr db)) + unat (ctx_len c)
          then Some (Inr (None, c\<lparr>is_new := True\<rparr>, db))
          else Some (Inr (Some (length (recs (hdr db))), c\<lparr>is_new := True\<rparr>,
                 db\<lparr>hdr :=
                   \<lparr>recs = recs (hdr db) @
                      [(init_rec c (new_rec k (ctx_len c) None (used (priv (hdr db))) False)
                          (ctx c))\<lparr>complete := True\<rparr>],
                    priv = (priv (hdr db))\<lparr>used := used (priv (hdr db)) + unat (ctx_len c)\<rparr>\<rparr>\<rparr>)))"
proof -
  let ?db1 = "db\<lparr>ga_lock := True\<rparr>"
  let ?c1 = "c\<lparr>is_new := False\<rparr>"
  have "\<exists>b. (case tdb_rec_get (htrie_spec t) ?db1 k of
            (it0, db2) \<Rightarrow> tdb_rec_get_alloc_loop (htrie_spec t) ?c1 db2 it0) =
     Some (Inr (case find (ga_match c k (recs (hdr db))) [0..<length (recs (hdr db))] of
          None \<Rightarrow> (\<lparr>rec = None, bckt = b\<rparr>, ?db1)
        | Some q \<Rightarrow> (\<lparr>rec = Some q, bckt = Some (slot_of k)\<rparr>,
                     ?db1\<lparr>hdr := (hdr db)\<lparr>recs := (recs (hdr db))
                                      [q := rec_get_ref (recs (hdr db) ! q)]\<rparr>\<rparr>)))"
    using scan_spec[where t=t and db="?db1" and k=k and c="?c1"]
    by (simp cong: option.case_cong)
  then obtain b where
    sc: "(case tdb_rec_get (htrie_spec t) ?db1 k of
            (it0, db2) \<Rightarrow> tdb_rec_get_alloc_loop (htrie_spec t) ?c1 db2 it0) =
     Some (Inr (case find (ga_match c k (recs (hdr db))) [0..<length (recs (hdr db))] of
          None \<Rightarrow> (\<lparr>rec = None, bckt = b\<rparr>, ?db1)
        | Some q \<Rightarrow> (\<lparr>rec = Some q, bckt = Some (slot_of k)\<rparr>,
                     ?db1\<lparr>hdr := (hdr db)\<lparr>recs := (recs (hdr db))
                                      [q := rec_get_ref (recs (hdr db) ! q)]\<rparr>\<rparr>)))"
    by blast
  obtain it0 db2 where g: "tdb_rec_get (htrie_spec t) ?db1 k = (it0, db2)"
    by (cases "tdb_rec_get (htrie_spec t) ?db1 k")
  note l = sc[unfolded g prod.case]
  show ?thesis
  proof (cases "find (ga_match c k (recs (hdr db))) [0..<length (recs (hdr db))]")
    case (Some p)
    with nl g l show ?thesis
      by (simp add: tdb_rec_get_alloc_def TDB_ITER_BAD_def unlock_id)
  next
    case None
    have al: "tdb_entry_alloc (htrie_spec t) ?db1 k (ctx_len c) =
       (if ctx_len c < t then Inl BUG
        else if 2 ^ 32 \<le> unat (ctx_len c)
                  \<or> capacity (priv (hdr db)) < used (priv (hdr db)) + unat (ctx_len c)
        then Inr (None, ctx_len c, ?db1)
        else Inr (Some (length (recs (hdr db))), ctx_len c,
               ?db1\<lparr>hdr := \<lparr>recs = recs (hdr db) @
                      [new_rec k (ctx_len c) None (used (priv (hdr db))) False],
                    priv = (priv (hdr db))\<lparr>used := used (priv (hdr db)) + unat (ctx_len c)\<rparr>\<rparr>\<rparr>))"
      by (simp add: tdb_entry_alloc_def htrie_spec_def htrie_insert_def Let_def)
    have mc: "tdb_rec_mark_complete (htrie_spec t) = (\<lambda>r. r\<lparr>complete := True\<rparr>)"
      by (simp add: htrie_spec_def)
    from nl g l None show ?thesis
      by (simp add: tdb_rec_get_alloc_def TDB_ITER_BAD_def unlock_id al Let_def
            tdb_entry_mark_complete_def mc)
  qed
qed

text \<open>
  In the example store the third record is the first visible one that holds the bytes
  of the context; key 43 has no record, so that one is allocated, unless the precreate
  callback vetoes.
\<close>

theorem tdb_rec_get_alloc_spec_witness:
  "\<not> ga_lock ex_cache_db \<and>
   tdb_rec_get_alloc (htrie_spec 64) ex_cache_db 42 (ex_ctx [88] 100 None) =
     Some (Inr (Some 2, (ex_ctx [88] 100 None)\<lparr>is_new := False\<rparr>,
       ex_cache_db\<lparr>hdr := (hdr ex_cache_db)\<lparr>recs :=
         [ex_rec 42 [1] True, ex_rec 42 [88] False, (ex_rec 42 [88] True)\<lparr>refcnt := 2\<rparr>]\<rparr>\<rparr>)) \<and>
   tdb_rec_get_alloc (htrie_spec 64) ex_cache_db 43 (ex_ctx [88] 100 None) =
     Some (Inr (Some 3, (ex_ctx [88] 100 None)\<lparr>is_new := True\<rparr>,
       ex_cache_db\<lparr>hdr :=
         \<lparr>recs = [ex_rec 42 [1] True, ex_rec 42 [88] False, ex_rec 42 [88] True,
                  (new_rec 43 100 None 3 False)\<lparr>bytes := [88], complete := True\<rparr>],
          priv = \<lparr>used = 103, capacity = 4096\<rparr>\<rparr>\<rparr>)) \<and>
   tdb_rec_get_alloc (htrie_spec 64) ex_cache_db 43 (ex_ctx [88] 100 (Some (\<lambda>c. 1))) =
     Some (Inr (None, (ex_ctx [88] 100 (Some (\<lambda>c. 1)))\<lparr>is_new := False\<rparr>, ex_cache_db))"
  using tdb_rec_get_alloc_spec[of ex_cache_db 64 42 "ex_ctx [88] 100 None"]
    tdb_rec_get_alloc_spec[of ex_cache_db 64 43 "ex_ctx [88] 100 None"]
    tdb_rec_get_alloc_spec[of ex_cache_db 64 43 "ex_ctx [88] 100 (Some (\<lambda>c. 1))"]
  by (simp add: ga_match_def visible_def rec_get_ref_def ex_rec_def ex_ctx_def precreate_veto_def)

section \<open>Room for the tail of a record\<close>

lemma unat_ucast_32_64: "unat (ucast (w :: u32) :: u64) = unat w"
proof -
  have "unat w < 2 ^ 32" using unsigned_less[of w] by simp
  then have "unat w < 2 ^ 64" by simp
  then show ?thesis
    by (simp add: unsigned_ucast_eq take_bit_nat_eq_self)
qed

text \<open>The room behind a cursor that lies in the fragment, and the length of what is
  written in front of it.\<close>

lemma room_left:
  fixes d cur :: u64 and l :: u32
  assumes lo: "unat d \<le> unat cur" and hi: "unat cur \<le> unat d + unat l"
    and nw: "unat d + unat l < 2 ^ 64"
  shows "unat (d + ucast l - cur) = unat d + unat l - unat cur"
proof -
  have a: "unat (d + ucast l) = unat d + unat l"
    using nw by (simp add: unat_add_lem[THEN iffD1] unat_ucast_32_64)
  have "cur \<le> d + ucast l"
    using hi a by (simp add: word_le_nat_alt)
  then show ?thesis
    by (simp add: unat_sub a)
qed

lemma chop_len:
  fixes d cur :: u64 and l :: u32
  assumes lo: "unat d \<le> unat cur" and hi: "unat cur \<le> unat d + unat l"
  shows "(ucast (cur - d) :: u32) = of_nat (unat cur - unat d)"
    and "unat (of_nat (unat cur - unat d) :: u32) = unat cur - unat d"
proof -
  have "d \<le> cur" using lo by (simp add: word_le_nat_alt)
  then have s: "unat (cur - d) = unat cur - unat d" by (simp add: unat_sub)
  have "(ucast (cur - d) :: u32) = of_nat (unat (cur - d))"
    by simp
  with s show "(ucast (cur - d) :: u32) = of_nat (unat cur - unat d)" by simp
  have "unat cur - unat d \<le> unat l" using hi by simp
  then show "unat (of_nat (unat cur - unat d) :: u32) = unat cur - unat d"
    by (rule le_unat_uoi)
qed

text \<open>
  C3. Let the cursor lie in the fragment \<open>r\<close> points to, between its data and the end
  of its data. When at least \<open>tail_len\<close> bytes are left behind the cursor,
  \<^verbatim>\<open>tdb_entry_get_room\<close> returns the cursor and changes nothing. Otherwise it sets
  the length of the fragment to the number of bytes in front of the cursor, calls
  \<^verbatim>\<open>tdb_htrie_extend_rec\<close> on the mapping so changed, and returns the data pointer
  of the fragment that call returned, or null when it returned null.
\<close>

theorem tdb_entry_get_room_spec:
  fixes db :: "'x TdbHdr TDB"
  assumes r: "r < length (recs (hdr db))"
    and v: "v = recs (hdr db) ! r"
    and lo: "unat (data v) \<le> unat cur"
    and hi: "unat cur \<le> unat (data v) + unat (len v)"
    and nw: "unat (data v) + unat (len v) < 2 ^ 64"
  shows "if unat tail_len \<le> unat (data v) + unat (len v) - unat cur
         then tdb_entry_get_room ops db r cur tail_len tot = Inr (Some cur, Some r, db)
         else unat (of_nat (unat cur - unat (data v)) :: u32) = unat cur - unat (data v) \<and>
           tdb_entry_get_room ops db r cur tail_len tot =
             (case tdb_htrie_extend_rec ops
                     ((hdr db)\<lparr>recs := (recs (hdr db))
                        [r := v\<lparr>len := of_nat (unat cur - unat (data v))\<rparr>]\<rparr>) r tot of
                (None, h2) \<Rightarrow> Inr (None, None, db\<lparr>hdr := h2\<rparr>)
              | (Some r', h2) \<Rightarrow>
                  if r' < length (recs h2)
                  then Inr (Some (data (recs h2 ! r')), Some r', db\<lparr>hdr := h2\<rparr>)
                  else Inl Oops)"
proof -
  have cmp: "(tail_len \<le> data v + ucast (len v) - cur) =
             (unat tail_len \<le> unat (data v) + unat (len v) - unat cur)"
    by (simp add: word_le_nat_alt room_left[OF lo hi nw])
  note ch = chop_len[OF lo hi]
  show ?thesis
    using r v cmp ch
    by (auto simp: tdb_entry_get_room_def Let_def not_le split: prod.splits option.splits)
qed

text \<open>A cursor at byte 60 of a fragment of 100 bytes: 30 bytes fit, 50 do not.\<close>

lemma ex_vrec [simp]:
  "recs (hdr ex_vrec_db) = [ex_frag 0 100]"
  "priv (hdr ex_vrec_db) = \<lparr>used = 100, capacity = 4096\<rparr>"
  by (simp_all add: ex_vrec_db_def ex_db_def ex_frag_def)

theorem tdb_entry_get_room_spec_witness:
  "0 < length (recs (hdr ex_vrec_db)) \<and>
   unat (data (ex_frag 0 100)) \<le> unat (60 :: u64) \<and>
   unat (60 :: u64) \<le> unat (data (ex_frag 0 100)) + unat (len (ex_frag 0 100)) \<and>
   tdb_entry_get_room (htrie_spec 64) ex_vrec_db 0 60 30 200 = Inr (Some 60, Some 0, ex_vrec_db) \<and>
   tdb_entry_get_room (htrie_spec 64) ex_vrec_db 0 60 50 200 =
     Inr (Some 100, Some 1,
          ex_vrec_db\<lparr>hdr :=
            \<lparr>recs = [(ex_frag 0 100)\<lparr>chunk_next := Some 1, len := 60\<rparr>,
                      \<lparr>key = 7, chunk_next = None, len = 200, data = 100,
                         bytes = replicate 200 0, refcnt = 0, complete = False,
                         tombstone = False\<rparr>],
             priv = \<lparr>used = 300, capacity = 4096\<rparr>\<rparr>\<rparr>)"
proof -
  have v: "ex_frag 0 100 = recs (hdr ex_vrec_db) ! 0" by simp
  have r: "0 < length (recs (hdr ex_vrec_db))" by simp
  have lo: "unat (data (ex_frag 0 100)) \<le> unat (60 :: u64)" by (simp add: ex_frag_def)
  have hi: "unat (60 :: u64) \<le> unat (data (ex_frag 0 100)) + unat (len (ex_frag 0 100))"
    by (simp add: ex_frag_def)
  have nw: "unat (data (ex_frag 0 100)) + unat (len (ex_frag 0 100)) < 2 ^ 64"
    by (simp add: ex_frag_def)
  note a = tdb_entry_get_room_spec[OF r v lo hi nw, of 30 "htrie_spec 64" 200]
  note b = tdb_entry_get_room_spec[OF r v lo hi nw, of 50 "htrie_spec 64" 200]
  have a': "tdb_entry_get_room (htrie_spec 64) ex_vrec_db 0 60 30 200 = Inr (Some 60, Some 0, ex_vrec_db)"
    using a by (simp add: ex_frag_def)
  have b': "tdb_entry_get_room (htrie_spec 64) ex_vrec_db 0 60 50 200 =
     Inr (Some 100, Some 1,
          ex_vrec_db\<lparr>hdr :=
            \<lparr>recs = [(ex_frag 0 100)\<lparr>chunk_next := Some 1, len := 60\<rparr>,
                      \<lparr>key = 7, chunk_next = None, len = 200, data = 100,
                         bytes = replicate 200 0, refcnt = 0, complete = False,
                         tombstone = False\<rparr>],
             priv = \<lparr>used = 300, capacity = 4096\<rparr>\<rparr>\<rparr>)"
    using b by (simp add: ex_frag_def htrie_spec_def htrie_extend_rec_def Let_def)
  from r lo hi a' b' show ?thesis by blast
qed

section \<open>Visibility of records\<close>

lemma find_upt_first:
  assumes "i \<le> p" "p < n" "P p"
  shows "\<exists>q. find P [i..<n] = Some q \<and> i \<le> q \<and> q \<le> p"
proof (cases "find P [i..<n]")
  case None
  with assms show ?thesis by (auto simp: find_None_iff)
next
  case (Some q)
  from find_upt_Some[OF Some] assms have "q \<le> p"
    by (meson not_le_imp_less)
  with Some find_upt_Some[OF Some] show ?thesis by simp
qed

lemma hdr_upd: "(h :: 'x TdbHdr)\<lparr>recs := rs'\<rparr> = \<lparr>recs = rs', priv = priv h\<rparr>"
  by (cases h) simp

lemma db_hdr_id: "db\<lparr>hdr := \<lparr>recs = recs (hdr db), priv = priv (hdr db)\<rparr>\<rparr> = db"
  by simp

lemma lookup_yields_holds:
  assumes "lookup_yields (htrie_spec t) db k it db'"
  shows "holds db k it db'"
  using assms
proof (induction rule: lookup_yields.induct)
  case (get it db')
  show ?case
  proof (cases "find (\<lambda>j. key (recs (hdr db) ! j) = k \<and> visible (recs (hdr db) ! j))
               [0..<length (recs (hdr db))]")
    case None
    with get show ?thesis by (auto simp: tdb_rec_get_spec_eq holds_def)
  next
    case (Some p)
    from find_upt_Some[OF Some] get Some show ?thesis
      by (auto simp: tdb_rec_get_spec_eq holds_def at_rec_def htrie_get_rec_def hdr_upd)
  qed
next
  case (step it db' it' db'')
  show ?case
  proof (cases "rec it")
    case None
    with step.hyps(2) show ?thesis
      by (auto simp: tdb_rec_next_def split: option.splits)
  next
    case (Some p)
    with step.IH have p: "p < length (recs (hdr db))"
      and kp: "key (recs (hdr db) ! p) = k"
      and it: "it = \<lparr>rec = Some p, bckt = Some (slot_of k)\<rparr>"
      and d: "db' = db\<lparr>hdr := \<lparr>recs = (recs (hdr db))[p := rec_get_ref (recs (hdr db) ! p)],
                           priv = priv (hdr db)\<rparr>\<rparr>"
      by (auto simp: holds_def at_rec_def)
    from d have h: "hdr db' = \<lparr>recs = (recs (hdr db))[p := rec_get_ref (recs (hdr db) ! p)],
                           priv = priv (hdr db)\<rparr>"
      by simp
    note nx = tdb_rec_next_spec[OF h p kp, of t "slot_of k"]
    show ?thesis
    proof (cases "bucket_scan (recs (hdr db)) (slot_of k) k (Suc p)")
      case None
      with step.hyps(2) nx it d show ?thesis
        by (auto simp: holds_def)
    next
      case (Some q)
      from bucket_scan_Some[OF Some] step.hyps(2) nx it d Some show ?thesis
        by (auto simp: holds_def at_rec_def)
    qed
  qed
qed

lemma next_reaches:
  assumes "lookup_yields (htrie_spec t) db k (fst (at_rec db k q)) (snd (at_rec db k q))"
    and "q < p" "p < length (recs (hdr db))"
    and "key (recs (hdr db) ! q) = k"
    and "key (recs (hdr db) ! p) = k" "visible (recs (hdr db) ! p)"
  shows "lookup_yields (htrie_spec t) db k (fst (at_rec db k p)) (snd (at_rec db k p))"
  using assms
proof (induction "p - q" arbitrary: q rule: less_induct)
  case less
  let ?rs = "recs (hdr db)"
  let ?S = "\<lambda>j. slot_of (key (?rs ! j)) = slot_of k \<and> key (?rs ! j) = k \<and> visible (?rs ! j)"
  have q: "q < length ?rs" using less.prems by simp
  have h: "hdr (snd (at_rec db k q)) =
      \<lparr>recs = ?rs[q := rec_get_ref (?rs ! q)], priv = priv (hdr db)\<rparr>"
    by (simp add: at_rec_def)
  from find_upt_first[of "Suc q" p "length ?rs" ?S] less.prems
  obtain q' where f: "bucket_scan ?rs (slot_of k) k (Suc q) = Some q'" and q': "Suc q \<le> q'" "q' \<le> p"
    by (auto simp: bucket_scan_def)
  from bucket_scan_Some[OF f] have kq': "key (?rs ! q') = k" by simp
  have nx: "tdb_rec_next (htrie_spec t) (snd (at_rec db k q)) (fst (at_rec db k q)) =
      Inr (fst (at_rec db k q'), snd (at_rec db k q'))"
    using tdb_rec_next_spec[OF h q less.prems(4), of t "slot_of k"] f
    by (simp add: at_rec_def)
  from lookup_yields.step[OF less.prems(1) nx]
  have y: "lookup_yields (htrie_spec t) db k (fst (at_rec db k q')) (snd (at_rec db k q'))" .
  show ?case
  proof (cases "q' = p")
    case True
    with y show ?thesis by simp
  next
    case False
    with q' have "q' < p" by simp
    moreover from this q' have "p - q' < p - q" by simp
    ultimately show ?thesis
      using less.hyps[of q'] y kq' less.prems by blast
  qed
qed

lemma visible_is_yielded:
  assumes p: "p < length (recs (hdr db))" "key (recs (hdr db) ! p) = k"
    "visible (recs (hdr db) ! p)"
  shows "lookup_yields (htrie_spec t) db k (fst (at_rec db k p)) (snd (at_rec db k p))"
proof -
  let ?rs = "recs (hdr db)"
  let ?S = "\<lambda>j. key (?rs ! j) = k \<and> visible (?rs ! j)"
  from find_upt_first[of 0 p "length ?rs" ?S] p
  obtain q where f: "find ?S [0..<length ?rs] = Some q" and q: "q \<le> p" by auto
  from find_upt_Some[OF f] have sq: "q < length ?rs" "key (?rs ! q) = k" by auto
  have "tdb_rec_get (htrie_spec t) db k = (fst (at_rec db k q), snd (at_rec db k q))"
    using f sq by (simp add: tdb_rec_get_spec_eq at_rec_def htrie_get_rec_def hdr_upd)
  then have y: "lookup_yields (htrie_spec t) db k (fst (at_rec db k q)) (snd (at_rec db k q))"
    by (rule lookup_yields.get)
  show ?thesis
  proof (cases "q = p")
    case True
    with y show ?thesis by simp
  next
    case False
    with q have "q < p" by simp
    from next_reaches[OF y this p(1) sq(2) p(2,3)] show ?thesis .
  qed
qed

lemma lookup_yields_iff:
  "(\<exists>it db'. lookup_yields (htrie_spec t) db k it db' \<and> rec it = Some p) \<longleftrightarrow>
   p < length (recs (hdr db)) \<and> key (recs (hdr db) ! p) = k \<and> visible (recs (hdr db) ! p)"
proof
  assume "\<exists>it db'. lookup_yields (htrie_spec t) db k it db' \<and> rec it = Some p"
  then obtain it db' where "lookup_yields (htrie_spec t) db k it db'" "rec it = Some p" by blast
  from lookup_yields_holds[OF this(1)] this(2)
  show "p < length (recs (hdr db)) \<and> key (recs (hdr db) ! p) = k \<and> visible (recs (hdr db) ! p)"
    by (simp add: holds_def)
next
  assume "p < length (recs (hdr db)) \<and> key (recs (hdr db) ! p) = k \<and> visible (recs (hdr db) ! p)"
  then have "lookup_yields (htrie_spec t) db k (fst (at_rec db k p)) (snd (at_rec db k p))"
    by (intro visible_is_yielded) simp_all
  moreover have "rec (fst (at_rec db k p)) = Some p" by (simp add: at_rec_def)
  ultimately show "\<exists>it db'. lookup_yields (htrie_spec t) db k it db' \<and> rec it = Some p"
    by blast
qed

lemma find_Some_set: "find P xs = Some x \<Longrightarrow> P x \<and> x \<in> set xs"
  by (auto simp: find_Some_iff)

lemma walk_visible_only:
  assumes "\<forall>r \<in> set (recs (hdr db)). visible r \<longrightarrow> fn r = fn' r"
  shows "tdb_entry_walk (htrie_spec t) db fn = tdb_entry_walk (htrie_spec t) db fn'"
proof -
  let ?xs = "filter visible (recs (hdr db))"
  have eq: "\<And>r. r \<in> set ?xs \<Longrightarrow> fn r = fn' r" using assms by simp
  then have f: "find (\<lambda>r. fn r \<noteq> 0) ?xs = find (\<lambda>r. fn' r \<noteq> 0) ?xs"
    by (intro find_cong) auto
  have "fn r = fn' r" if "find (\<lambda>r. fn' r \<noteq> 0) ?xs = Some r" for r
    using find_Some_set[OF that] eq by blast
  with f show ?thesis
    by (auto simp: tdb_entry_walk_def htrie_spec_def htrie_walk_def split: option.splits)
qed

lemma remove_keeps_incomplete:
  assumes "p < length (recs (hdr db))" "\<not> complete (recs (hdr db) ! p)"
  shows "recs (hdr (tdb_entry_remove (htrie_spec t) db k eq_cb False)) ! p = recs (hdr db) ! p"
  using assms by (simp add: tdb_entry_remove_def htrie_spec_def htrie_remove_def)

lemma alloc_incomplete:
  assumes "tdb_entry_alloc_unique (htrie_spec t) db k n eq_cb = Inr (Some r, n', db1)"
  shows "r < length (recs (hdr db1)) \<and> key (recs (hdr db1) ! r) = k \<and>
         \<not> complete (recs (hdr db1) ! r) \<and> \<not> tombstone (recs (hdr db1) ! r)"
  using assms
  by (auto simp: tdb_entry_alloc_unique_def htrie_spec_def htrie_insert_def Let_def new_rec_def
        nth_append split: if_splits option.splits)

lemma alloc_plain: "tdb_entry_alloc ops db k n = tdb_entry_alloc_unique ops db k n None"
  by (simp add: tdb_entry_alloc_def tdb_entry_alloc_unique_def)

lemma mark_complete_spec:
  assumes "tdb_entry_mark_complete (htrie_spec t) h p = Inr h'"
  shows "p < length (recs h) \<and> recs h' = (recs h)[p := (recs h ! p)\<lparr>complete := True\<rparr>] \<and> priv h' = priv h"
  using assms by (auto simp: tdb_entry_mark_complete_def htrie_spec_def split: if_splits)

text \<open>
  C5, on the operations of the specification. A lookup of key \<open>k\<close> yields the record
  at \<open>p\<close> (by \<^verbatim>\<open>tdb_rec_get\<close> or by a later \<^verbatim>\<open>tdb_rec_next\<close>) if and only if
  that record has the key, is complete and is not tombstoned. The records
  \<^verbatim>\<open>tdb_entry_alloc\<close> and \<^verbatim>\<open>tdb_entry_alloc_unique\<close> return are not complete;
  the result of a walk does not depend on what the visitor does on records that are not
  visible; a remove without \<open>force\<close> leaves an incomplete record as it is; and
  \<^verbatim>\<open>tdb_entry_mark_complete\<close> makes the record complete, so that it is yielded from
  then on unless it is tombstoned.
\<close>

theorem incomplete_records_invisible:
  fixes db :: "htrie TDB"
  shows
  "((\<exists>it db'. lookup_yields (htrie_spec t) db k it db' \<and> rec it = Some p) \<longleftrightarrow>
      p < length (recs (hdr db)) \<and> key (recs (hdr db) ! p) = k \<and>
      complete (recs (hdr db) ! p) \<and> \<not> tombstone (recs (hdr db) ! p)) \<and>
   (tdb_entry_alloc (htrie_spec t) db k n = Inr (Some r, n', dba) \<longrightarrow>
      r < length (recs (hdr dba)) \<and> key (recs (hdr dba) ! r) = k \<and>
      \<not> complete (recs (hdr dba) ! r)) \<and>
   (tdb_entry_alloc_unique (htrie_spec t) db k n eq_cb = Inr (Some r, n', dba) \<longrightarrow>
      r < length (recs (hdr dba)) \<and> key (recs (hdr dba) ! r) = k \<and>
      \<not> complete (recs (hdr dba) ! r)) \<and>
   ((\<forall>x \<in> set (recs (hdr db)). complete x \<and> \<not> tombstone x \<longrightarrow> fn x = fn' x) \<longrightarrow>
      tdb_entry_walk (htrie_spec t) db fn = tdb_entry_walk (htrie_spec t) db fn') \<and>
   (p < length (recs (hdr db)) \<and> \<not> complete (recs (hdr db) ! p) \<longrightarrow>
      recs (hdr (tdb_entry_remove (htrie_spec t) db k eq_cb False)) ! p = recs (hdr db) ! p) \<and>
   (tdb_entry_mark_complete (htrie_spec t) (hdr db) p = Inr h' \<longrightarrow>
      p < length (recs h') \<and> complete (recs h' ! p) \<and> key (recs h' ! p) = key (recs (hdr db) ! p) \<and>
      tombstone (recs h' ! p) = tombstone (recs (hdr db) ! p))"
proof -
  have a: "(\<exists>it db'. lookup_yields (htrie_spec t) db k it db' \<and> rec it = Some p) \<longleftrightarrow>
      p < length (recs (hdr db)) \<and> key (recs (hdr db) ! p) = k \<and>
      complete (recs (hdr db) ! p) \<and> \<not> tombstone (recs (hdr db) ! p)"
    by (subst lookup_yields_iff) (simp add: visible_def)
  have b: "tdb_entry_alloc_unique (htrie_spec t) db k n e = Inr (Some r, n', dba) \<longrightarrow>
      r < length (recs (hdr dba)) \<and> key (recs (hdr dba) ! r) = k \<and>
      \<not> complete (recs (hdr dba) ! r)" for e
    using alloc_incomplete[of t db k n e r n' dba] by blast
  have c: "(\<forall>x \<in> set (recs (hdr db)). complete x \<and> \<not> tombstone x \<longrightarrow> fn x = fn' x) \<longrightarrow>
      tdb_entry_walk (htrie_spec t) db fn = tdb_entry_walk (htrie_spec t) db fn'"
    using walk_visible_only[of db fn fn' t] by (simp add: visible_def)
  have d: "p < length (recs (hdr db)) \<and> \<not> complete (recs (hdr db) ! p) \<longrightarrow>
      recs (hdr (tdb_entry_remove (htrie_spec t) db k eq_cb False)) ! p = recs (hdr db) ! p"
    using remove_keeps_incomplete[of p db t k eq_cb] by blast
  have e: "tdb_entry_mark_complete (htrie_spec t) (hdr db) p = Inr h' \<longrightarrow>
      p < length (recs h') \<and> complete (recs h' ! p) \<and> key (recs h' ! p) = key (recs (hdr db) ! p) \<and>
      tombstone (recs h' ! p) = tombstone (recs (hdr db) ! p)"
    using mark_complete_spec[of t "hdr db" p h'] by auto
  from a b[of None] b[of eq_cb] c d e show ?thesis
    by (simp only: alloc_plain)
qed

theorem incomplete_records_invisible_witness:
  "(\<exists>it db'. lookup_yields (htrie_spec 64) ex_cache_db 42 it db' \<and> rec it = Some 2) \<and>
   \<not> (\<exists>it db'. lookup_yields (htrie_spec 64) ex_cache_db 42 it db' \<and> rec it = Some 1) \<and>
   tdb_entry_alloc (htrie_spec 64) ex_cache_db 42 100 =
     Inr (Some 3, 100, ex_cache_db\<lparr>hdr :=
            \<lparr>recs = [ex_rec 42 [1] True, ex_rec 42 [88] False, ex_rec 42 [88] True,
                      new_rec 42 100 None 3 False],
             priv = \<lparr>used = 103, capacity = 4096\<rparr>\<rparr>\<rparr>) \<and>
   \<not> complete (new_rec 42 100 None 3 False) \<and>
   tdb_entry_walk (htrie_spec 64) ex_cache_db (\<lambda>r. if complete r then 0 else 1) =
     tdb_entry_walk (htrie_spec 64) ex_cache_db (\<lambda>r. 0) \<and>
   recs (hdr (tdb_entry_remove (htrie_spec 64) ex_cache_db 42 None False)) ! 1 = ex_rec 42 [88] False"
proof -
  have al: "tdb_entry_alloc (htrie_spec 64) ex_cache_db 42 100 =
     Inr (Some 3, 100, ex_cache_db\<lparr>hdr :=
            \<lparr>recs = [ex_rec 42 [1] True, ex_rec 42 [88] False, ex_rec 42 [88] True,
                      new_rec 42 100 None 3 False],
             priv = \<lparr>used = 103, capacity = 4096\<rparr>\<rparr>\<rparr>)"
    by (simp add: tdb_entry_alloc_def htrie_spec_def htrie_insert_def Let_def)
  note t2 = incomplete_records_invisible[where t=64 and db=ex_cache_db and k=42 and p=2
      and n=100 and r=3 and n'=100 and fn="\<lambda>r. if complete r then 0 else 1" and fn'="\<lambda>r. 0"
      and eq_cb=None
      and dba="ex_cache_db\<lparr>hdr :=
            \<lparr>recs = [ex_rec 42 [1] True, ex_rec 42 [88] False, ex_rec 42 [88] True,
                      new_rec 42 100 None 3 False],
             priv = \<lparr>used = 103, capacity = 4096\<rparr>\<rparr>\<rparr>"]
  note t1 = incomplete_records_invisible[where t=64 and db=ex_cache_db and k=42 and p=1
      and eq_cb=None]
  from t2 have y2: "\<exists>it db'. lookup_yields (htrie_spec 64) ex_cache_db 42 it db' \<and> rec it = Some 2"
    by (simp add: ex_rec_def)
  from t1 have y1: "\<not> (\<exists>it db'. lookup_yields (htrie_spec 64) ex_cache_db 42 it db' \<and> rec it = Some 1)"
    by (simp add: ex_rec_def)
  from t2 al have nc: "\<not> complete (new_rec 42 100 None 3 False)"
    by simp
  from t2 have w: "tdb_entry_walk (htrie_spec 64) ex_cache_db (\<lambda>r. if complete r then 0 else 1) =
     tdb_entry_walk (htrie_spec 64) ex_cache_db (\<lambda>r. 0)"
    by simp
  from t1 have rm: "recs (hdr (tdb_entry_remove (htrie_spec 64) ex_cache_db 42 None False)) ! 1
      = ex_rec 42 [88] False"
    by (simp add: ex_rec_def)
  from y2 y1 al nc w rm show ?thesis by blast
qed

section \<open>Opening a table\<close>

lemma unat_2p64:
  assumes "b < 64"
  shows "unat (2 ^ b :: u64) = 2 ^ b"
proof -
  have "(2 ^ b :: u64) = of_nat (2 ^ b)" by simp
  then have "unat (2 ^ b :: u64) = (2 ^ b) mod 2 ^ LENGTH(64)"
    by (simp only: unat_of_nat)
  moreover have "(2::nat) ^ b < 2 ^ 64"
    using assms by (rule power_strict_increasing) simp
  ultimately show ?thesis by (simp del: power_strict_increasing_iff)
qed

lemma ext_check:
  assumes b: "TDB_EXT_BITS t < 64"
  shows "(fsize AND NOT (TDB_EXT_MASK t) \<noteq> 0 \<or> fsize < TDB_EXT_SZ t) \<longleftrightarrow>
         (unat fsize mod 2 ^ TDB_EXT_BITS t \<noteq> 0 \<or> unat fsize < 2 ^ TDB_EXT_BITS t)"
proof -
  let ?b = "TDB_EXT_BITS t"
  have m: "fsize AND NOT (TDB_EXT_MASK t) = take_bit ?b fsize"
    by (simp add: TDB_EXT_MASK_def push_bit_of_1 take_bit_eq_mask mask_eq_decr_exp)
  have "(take_bit ?b fsize = 0) = (unat (take_bit ?b fsize) = 0)"
    by (simp add: unat_eq_0)
  also have "\<dots> = (unat fsize mod 2 ^ ?b = 0)"
    by (simp only: unsigned_take_bit_eq take_bit_nat_def)
  finally have z: "(take_bit ?b fsize = 0) = (unat fsize mod 2 ^ ?b = 0)" .
  have "unat (2 ^ ?b :: u64) = 2 ^ ?b"
    using b by (rule unat_2p64)
  then have l: "(fsize < TDB_EXT_SZ t) = (unat fsize < 2 ^ ?b)"
    by (simp add: TDB_EXT_SZ_def push_bit_of_1 word_less_nat_alt)
  show ?thesis
    unfolding m z l ..
qed

text \<open>
  C8. With an extent of less than \<open>2 ^ 64\<close> bytes, a size that is not a multiple of the
  extent or is smaller than one extent makes \<^verbatim>\<open>tdb_open\<close> return null, whatever the
  path and the node are, and the state of the registry and of the files is as before.
\<close>

theorem tdb_open_bad_size:
  assumes "TDB_EXT_BITS t < 64"
    and "unat fsize mod 2 ^ TDB_EXT_BITS t \<noteq> 0 \<or> unat fsize < 2 ^ TDB_EXT_BITS t"
  shows "tdb_open t w p fsize rec_size nd = Inr (None, w)"
  using ext_check[OF assms(1), of fsize] assms(2)
  by (simp add: tdb_open_def)

theorem tdb_open_bad_size_witness:
  "TDB_EXT_BITS ex_table_ops < 64 \<and>
   unat (0x200001 :: u64) mod 2 ^ TDB_EXT_BITS ex_table_ops \<noteq> 0 \<and>
   unat (0x1000 :: u64) < 2 ^ TDB_EXT_BITS ex_table_ops \<and>
   tdb_open ex_table_ops [] ''/db/cache.tdb'' 0x200001 64 0 = Inr (None, []) \<and>
   tdb_open ex_table_ops [] ''/db/cache.tdb'' 0x1000 64 0 = Inr (None, []) \<and>
   tdb_open ex_table_ops [] ''cache'' 0x1000 64 10 = Inr (None, [])"
proof -
  have b: "TDB_EXT_BITS ex_table_ops < 64" by (simp add: ex_table_ops_def)
  have m: "unat (0x200001 :: u64) mod 2 ^ TDB_EXT_BITS ex_table_ops \<noteq> 0"
    by (simp add: ex_table_ops_def)
  have l: "unat (0x1000 :: u64) < 2 ^ TDB_EXT_BITS ex_table_ops"
    by (simp add: ex_table_ops_def)
  from b m l tdb_open_bad_size[OF b disjI1[OF m]] tdb_open_bad_size[OF b disjI2[OF l]]
  show ?thesis by blast
qed

lemma strrchr_Some: "strrchr s c = Some i \<Longrightarrow> i < length s \<and> s ! i = c"
  unfolding strrchr_def by (drule find_Some_set) simp

lemma strrchr_None: "strrchr s c = None \<Longrightarrow> c \<notin> set s"
  unfolding strrchr_def by (auto simp: find_None_iff in_set_conv_nth)

lemma suffix_no_slash:
  assumes "drop (length p - 4) p = ''.tdb''" "length p - 4 \<le> i" "i < length p"
  shows "p ! i \<noteq> CHR ''/''"
proof -
  have "length (drop (length p - 4) p) = 4" using assms(1) by simp
  then have l: "4 \<le> length p" by simp
  have "p ! i = drop (length p - 4) p ! (i - (length p - 4))"
    using assms(2,3) by simp
  also have "\<dots> = ''.tdb'' ! (i - (length p - 4))"
    using assms(1) by simp
  finally have e: "p ! i = ''.tdb'' ! (i - (length p - 4))" .
  have "i - (length p - 4) < 4" using assms(2,3) l by simp
  then consider "i - (length p - 4) = 0" | "i - (length p - 4) = 1" | "i - (length p - 4) = 2"
    | "i - (length p - 4) = 3" by linarith
  then show ?thesis
    by cases (simp_all add: e)
qed

lemma sizeof_TDB_SUFFIX_5: "sizeof_TDB_SUFFIX = 5"
  by (simp add: sizeof_TDB_SUFFIX_def TDB_SUFFIX_def)

text \<open>The second assertion of tdb_get_db never fires.\<close>

lemma name_len_nonneg:
  assumes "drop (length p - 4) p = ''.tdb''" "strrchr p (CHR ''/'') = Some s"
  shows "0 \<le> int (length p) - int s - 5"
proof -
  from strrchr_Some[OF assms(2)] have s: "s < length p" "p ! s = CHR ''/''" by simp_all
  have "length (drop (length p - 4) p) = 4" using assms(1) by simp
  then have l: "4 \<le> length p" by simp
  have "s < length p - 4"
  proof (rule ccontr)
    assume "\<not> s < length p - 4"
    then have "length p - 4 \<le> s" by simp
    from suffix_no_slash[OF assms(1) this s(1)] s(2) show False by simp
  qed
  with l show ?thesis by linarith
qed

lemma tdb_get_db_BUG_iff: "tdb_get_db t w p nd = Inl BUG \<longleftrightarrow> 9 < nd"
proof (cases "9 < nd")
  case True
  then show ?thesis by (simp add: tdb_get_db_def)
next
  case False
  have "tdb_get_db t w p nd \<noteq> Inl BUG"
  proof (cases "drop (length p - 4) p = ''.tdb''")
    case sfx: True
    show ?thesis
    proof (cases "strrchr p (CHR ''/'')")
      case None
      with False sfx show ?thesis
        by (simp add: tdb_get_db_def Let_def TDB_SUFFIX_def sizeof_TDB_SUFFIX_5)
    next
      case (Some s)
      from name_len_nonneg[OF sfx Some] have "\<not> int (length p) - int s - 5 < 0" by simp
      with False sfx Some show ?thesis
        by (simp add: tdb_get_db_def Let_def TDB_SUFFIX_def sizeof_TDB_SUFFIX_5
              split: option.splits)
    qed
  next
    case False
    with \<open>\<not> 9 < nd\<close> show ?thesis
      by (simp add: tdb_get_db_def Let_def TDB_SUFFIX_def sizeof_TDB_SUFFIX_5)
  qed
  with False show ?thesis by simp
qed

lemma ex_size_ok:
  "\<not> ((0x200000 :: u64) AND NOT (TDB_EXT_MASK ex_table_ops) \<noteq> 0 \<or> 0x200000 < TDB_EXT_SZ ex_table_ops)"
  by (simp add: ex_table_ops_def TDB_EXT_MASK_def TDB_EXT_SZ_def)

section \<open>The paths a table is opened with\<close>

text \<open>
  What \<^verbatim>\<open>tdb_get_db\<close> asks of a path it returns a handle for: it ends with the
  suffix, it has a \<^verbatim>\<open>/\<close> somewhere, and the name between the last \<^verbatim>\<open>/\<close> and
  the suffix, with the five bytes of \<^verbatim>\<open>sizeof(TDB_SUFFIX)\<close>, stays below
  \<^verbatim>\<open>TDB_TBLNAME_LEN\<close>. A handle that is new for a node from 0 to 9 has the table name
  followed by the digit of the node and the suffix.
\<close>

lemma tdb_get_db_accepts:
  assumes "tdb_get_db t w p nd = Inr (Some db, w')"
  shows "nd \<le> 9 \<and> 4 \<le> length p \<and> drop (length p - 4) p = ''.tdb'' \<and>
         (\<exists>s. strrchr p (CHR ''/'') = Some s \<and> s + 5 \<le> length p \<and>
              (length p - s - 5) + 5 < TDB_TBLNAME_LEN t)"
proof -
  from assms have nd: "nd \<le> 9" and l: "4 \<le> length p"
    and sfx: "drop (length p - 4) p = ''.tdb''"
    by (auto simp: tdb_get_db_def Let_def TDB_SUFFIX_def sizeof_TDB_SUFFIX_5 split: if_splits)
  from assms nd l sfx obtain s where s: "strrchr p (CHR ''/'') = Some s"
    by (cases "strrchr p (CHR ''/'')")
       (auto simp: tdb_get_db_def Let_def TDB_SUFFIX_def sizeof_TDB_SUFFIX_5)
  from name_len_nonneg[OF sfx s] have n: "s + 5 \<le> length p" by linarith
  then have e: "nat (int (length p) - int s - 5) = length p - s - 5" by linarith
  from assms nd l sfx s n e have "(length p - s - 5) + 5 < TDB_TBLNAME_LEN t"
    by (auto simp: tdb_get_db_def Let_def TDB_SUFFIX_def sizeof_TDB_SUFFIX_5 split: if_splits)
  with nd l sfx s n show ?thesis by blast
qed

lemma fmt_d_digit:
  assumes "0 \<le> nd" "nd \<le> 9"
  shows "length (fmt_d nd) = 1"
  using assms by (simp add: fmt_d_def)

lemma tdb_get_db_new_name:
  assumes ok: "tdb_get_db t w p nd = Inr (Some db, w')"
    and nd: "0 \<le> nd"
    and s: "strrchr p (CHR ''/'') = Some s"
    and new: "tdb_tbl_lookup t w
                (snprintf (TDB_TBLNAME_LEN t) (take (length p - s - 5) (drop (s + 1) p) @ fmt_d nd))
                (length p - s - 5 + 1) = None"
  shows "tbl_name db = take (length p - s - 5) (drop (s + 1) p) @ fmt_d nd @ ''.tdb'' \<and>
         length (take (length p - s - 5) (drop (s + 1) p)) = length p - s - 5 \<and>
         length (fmt_d nd) = 1"
proof -
  from tdb_get_db_accepts[OF ok] s
  have a: "nd \<le> 9" "4 \<le> length p" "drop (length p - 4) p = ''.tdb''"
    "s + 5 \<le> length p" "(length p - s - 5) + 5 < TDB_TBLNAME_LEN t"
    by auto
  let ?l = "length p - s - 5"
  have e: "nat (int (length p) - int s - 5) = ?l" using a(4) by linarith
  have d: "length (fmt_d nd) = 1" using nd a(1) by (rule fmt_d_digit)
  have n: "length (take ?l (drop (s + 1) p)) = ?l" using a(4) by simp
  have fit: "length (take ?l (drop (s + 1) p) @ fmt_d nd @ ''.tdb'') \<le> TDB_TBLNAME_LEN t - 1"
    using a(5) d n by simp
  have "tbl_name db = snprintf (TDB_TBLNAME_LEN t) (take ?l (drop (s + 1) p) @ fmt_d nd @ ''.tdb'')"
    using ok a s e new
    by (auto simp: tdb_get_db_def Let_def TDB_SUFFIX_def sizeof_TDB_SUFFIX_5 zeroed_TDB_def
          tdb_get_def split: if_splits)
  with fit d n show ?thesis
    by (simp add: snprintf_def)
qed

section \<open>The node of a table\<close>

lemma fmt_d_digit_eq:
  assumes "0 \<le> nd" "nd \<le> 9"
  shows "fmt_d nd = [''0123456789'' ! nat nd]"
  using assms by (simp add: fmt_d_def)

lemma tdb_open_BUG_iff:
  assumes "\<not> (fsize AND NOT (TDB_EXT_MASK t) \<noteq> 0 \<or> fsize < TDB_EXT_SZ t)"
  shows "tdb_open t w p fsize rec_size nd = Inl BUG \<longleftrightarrow> tdb_get_db t w p nd = Inl BUG"
  using assms
  by (auto simp: tdb_open_def Let_def split: sum.splits prod.splits option.splits if_splits)

lemma tdb_open_bad_size_null:
  assumes "fsize AND NOT (TDB_EXT_MASK t) \<noteq> 0 \<or> fsize < TDB_EXT_SZ t"
  shows "tdb_open t w p fsize rec_size nd = Inr (None, w)"
  using assms by (simp add: tdb_open_def)

lemma ex_get_db_nine:
  "tdb_get_db ex_table_ops [] ''/db/cache.tdb'' 9 =
     Inr (Some \<lparr>hdr = None, ga_lock = False, count = 1, node = 0,
                path = ''/db/cache9.tdb'', tbl_name = ''cache9.tdb''\<rparr>, [])"
  by (simp add: tdb_get_db_def ex_table_ops_def sizeof_TDB_SUFFIX_5 TDB_SUFFIX_def strrchr_def
       snprintf_def fmt_d_def zeroed_TDB_def tdb_get_def upt_rec[of _ "numeral _"] Let_def)

lemma ex_get_db_neg:
  "tdb_get_db ex_table_ops [] ''/db/cache.tdb'' (- 1) =
     Inr (Some \<lparr>hdr = None, ga_lock = False, count = 1, node = 0,
                path = ''/db/cache-1.tdb'', tbl_name = ''cache-1.tdb''\<rparr>, [])"
  by (simp add: tdb_get_db_def ex_table_ops_def sizeof_TDB_SUFFIX_5 TDB_SUFFIX_def strrchr_def
       snprintf_def fmt_d_def zeroed_TDB_def tdb_get_def upt_rec[of _ "numeral _"] Let_def)

text \<open>
  C9, as the code has it. For a node greater than 9 \<^verbatim>\<open>tdb_get_db\<close> stops at its
  assertion, and so does \<^verbatim>\<open>tdb_open\<close> once the size has passed its check, which
  comes first: with a bad size \<^verbatim>\<open>tdb_open\<close> returns null. For a node from 0 to 9
  neither function stops at an assertion, the node is written as one decimal digit, and a
  handle that is new has the table name followed by that digit and the suffix.
\<close>

theorem tdb_open_node_digit:
  "(9 < nd \<longrightarrow>
      tdb_get_db t w p nd = Inl BUG \<and>
      (if fsize AND NOT (TDB_EXT_MASK t) \<noteq> 0 \<or> fsize < TDB_EXT_SZ t
       then tdb_open t w p fsize rec_size nd = Inr (None, w)
       else tdb_open t w p fsize rec_size nd = Inl BUG)) \<and>
   (0 \<le> nd \<and> nd \<le> 9 \<longrightarrow>
      tdb_get_db t w p nd \<noteq> Inl BUG \<and>
      tdb_open t w p fsize rec_size nd \<noteq> Inl BUG \<and>
      fmt_d nd = [''0123456789'' ! nat nd] \<and>
      (tdb_get_db t w p nd = Inr (Some db, w') \<and> strrchr p (CHR ''/'') = Some s \<and>
       tdb_tbl_lookup t w
         (snprintf (TDB_TBLNAME_LEN t) (take (length p - s - 5) (drop (s + 1) p) @ fmt_d nd))
         (length p - s - 5 + 1) = None \<longrightarrow>
         tbl_name db = take (length p - s - 5) (drop (s + 1) p) @ fmt_d nd @ ''.tdb''))"
proof -
  have hi: "tdb_get_db t w p nd = Inl BUG \<and>
      (if fsize AND NOT (TDB_EXT_MASK t) \<noteq> 0 \<or> fsize < TDB_EXT_SZ t
       then tdb_open t w p fsize rec_size nd = Inr (None, w)
       else tdb_open t w p fsize rec_size nd = Inl BUG)" if "9 < nd"
  proof -
    from that have g: "tdb_get_db t w p nd = Inl BUG" by (simp add: tdb_get_db_BUG_iff)
    show ?thesis
    proof (cases "fsize AND NOT (TDB_EXT_MASK t) \<noteq> 0 \<or> fsize < TDB_EXT_SZ t")
      case True
      with g tdb_open_bad_size_null[OF True] show ?thesis by simp
    next
      case False
      with g tdb_open_BUG_iff[OF False] show ?thesis by simp
    qed
  qed
  have lo: "tdb_get_db t w p nd \<noteq> Inl BUG \<and>
      tdb_open t w p fsize rec_size nd \<noteq> Inl BUG \<and>
      fmt_d nd = [''0123456789'' ! nat nd] \<and>
      (tdb_get_db t w p nd = Inr (Some db, w') \<and> strrchr p (CHR ''/'') = Some s \<and>
       tdb_tbl_lookup t w
         (snprintf (TDB_TBLNAME_LEN t) (take (length p - s - 5) (drop (s + 1) p) @ fmt_d nd))
         (length p - s - 5 + 1) = None \<longrightarrow>
         tbl_name db = take (length p - s - 5) (drop (s + 1) p) @ fmt_d nd @ ''.tdb'')"
    if n: "0 \<le> nd" "nd \<le> 9"
  proof -
    from n have g: "tdb_get_db t w p nd \<noteq> Inl BUG" by (simp add: tdb_get_db_BUG_iff)
    have o: "tdb_open t w p fsize rec_size nd \<noteq> Inl BUG"
    proof (cases "fsize AND NOT (TDB_EXT_MASK t) \<noteq> 0 \<or> fsize < TDB_EXT_SZ t")
      case True
      from tdb_open_bad_size_null[OF True] show ?thesis by simp
    next
      case False
      with g tdb_open_BUG_iff[OF False] show ?thesis by simp
    qed
    have nm: "tbl_name db = take (length p - s - 5) (drop (s + 1) p) @ fmt_d nd @ ''.tdb''"
      if "tdb_get_db t w p nd = Inr (Some db, w')" "strrchr p (CHR ''/'') = Some s"
        "tdb_tbl_lookup t w
         (snprintf (TDB_TBLNAME_LEN t) (take (length p - s - 5) (drop (s + 1) p) @ fmt_d nd))
         (length p - s - 5 + 1) = None"
      using tdb_get_db_new_name[OF that(1) n(1) that(2,3)] by simp
    from g o fmt_d_digit_eq[OF n] nm show ?thesis by blast
  qed
  from hi lo show ?thesis by blast
qed

text \<open>Node 10 with a good and with a bad size, and node 9, on the example registry.\<close>

theorem tdb_open_node_digit_witness:
  "(9 :: int) < 10 \<and> (0 :: int) \<le> 9 \<and>
   tdb_get_db ex_table_ops [] ''/db/cache.tdb'' 10 = Inl BUG \<and>
   tdb_open ex_table_ops [] ''/db/cache.tdb'' 0x200000 64 10 = Inl BUG \<and>
   tdb_open ex_table_ops [] ''/db/cache.tdb'' 0x1000 64 10 = Inr (None, []) \<and>
   tdb_get_db ex_table_ops [] ''/db/cache.tdb'' 9 \<noteq> Inl BUG \<and>
   tdb_open ex_table_ops [] ''/db/cache.tdb'' 0x200000 64 9 \<noteq> Inl BUG \<and>
   fmt_d 9 = ''9'' \<and>
   tdb_get_db ex_table_ops [] ''/db/cache.tdb'' 9 =
     Inr (Some \<lparr>hdr = None, ga_lock = False, count = 1, node = 0,
                path = ''/db/cache9.tdb'', tbl_name = ''cache9.tdb''\<rparr>, []) \<and>
   strrchr ''/db/cache.tdb'' (CHR ''/'') = Some 3"
proof -
  have bad: "(0x1000 :: u64) AND NOT (TDB_EXT_MASK ex_table_ops) \<noteq> 0
             \<or> 0x1000 < TDB_EXT_SZ ex_table_ops"
    by (simp add: ex_table_ops_def TDB_EXT_MASK_def TDB_EXT_SZ_def)
  have s: "strrchr ''/db/cache.tdb'' (CHR ''/'') = Some 3"
    by (simp add: strrchr_def upt_rec[of _ "numeral _"])
  note hi1 = tdb_open_node_digit[where nd=10 and t=ex_table_ops and w="[]"
      and p="''/db/cache.tdb''" and fsize="0x200000" and rec_size=64]
  note hi2 = tdb_open_node_digit[where nd=10 and t=ex_table_ops and w="[]"
      and p="''/db/cache.tdb''" and fsize="0x1000" and rec_size=64]
  note lo = tdb_open_node_digit[where nd=9 and t=ex_table_ops and w="[]"
      and p="''/db/cache.tdb''" and fsize="0x200000" and rec_size=64]
  from hi1 ex_size_ok have a: "tdb_get_db ex_table_ops [] ''/db/cache.tdb'' 10 = Inl BUG"
    "tdb_open ex_table_ops [] ''/db/cache.tdb'' 0x200000 64 10 = Inl BUG"
    by simp_all
  from hi2 bad have b: "tdb_open ex_table_ops [] ''/db/cache.tdb'' 0x1000 64 10 = Inr (None, [])"
    by simp
  from lo have c: "tdb_get_db ex_table_ops [] ''/db/cache.tdb'' 9 \<noteq> Inl BUG"
    "tdb_open ex_table_ops [] ''/db/cache.tdb'' 0x200000 64 9 \<noteq> Inl BUG"
    "fmt_d 9 = ''9''"
    by simp_all
  from a b c s ex_get_db_nine show ?thesis by simp
qed

text \<open>
  C9, as the claim states it, fails: node 10 with a size below one extent gets null and
  no assertion, and node \<open>-1\<close> is opened, under a name with two characters for the node.
\<close>

theorem tdb_open_node_unasserted:
  "tdb_open ex_table_ops [] ''/db/cache.tdb'' 0x1000 64 10 = Inr (None, []) \<and>
   tdb_open ex_table_ops [] ''/db/cache.tdb'' 0x200000 64 (- 1) =
     Inr (Some \<lparr>hdr = Some \<lparr>recs = [], priv = \<lparr>used = 0, capacity = 2097152\<rparr>\<rparr>,
                ga_lock = False, count = 1, node = - 1,
                path = ''/db/cache-1.tdb'', tbl_name = ''cache-1.tdb''\<rparr>,
          [\<lparr>hdr = Some \<lparr>recs = [], priv = \<lparr>used = 0, capacity = 2097152\<rparr>\<rparr>,
            ga_lock = False, count = 1, node = - 1,
            path = ''/db/cache-1.tdb'', tbl_name = ''cache-1.tdb''\<rparr>])"
proof -
  have a: "tdb_open ex_table_ops [] ''/db/cache.tdb'' 0x1000 64 10 = Inr (None, [])"
    by (simp add: tdb_open_def ex_table_ops_def TDB_EXT_MASK_def TDB_EXT_SZ_def)
  have b: "tdb_open ex_table_ops [] ''/db/cache.tdb'' 0x200000 64 (- 1) =
     Inr (Some \<lparr>hdr = Some \<lparr>recs = [], priv = \<lparr>used = 0, capacity = 2097152\<rparr>\<rparr>,
                ga_lock = False, count = 1, node = - 1,
                path = ''/db/cache-1.tdb'', tbl_name = ''cache-1.tdb''\<rparr>,
          [\<lparr>hdr = Some \<lparr>recs = [], priv = \<lparr>used = 0, capacity = 2097152\<rparr>\<rparr>,
            ga_lock = False, count = 1, node = - 1,
            path = ''/db/cache-1.tdb'', tbl_name = ''cache-1.tdb''\<rparr>])"
    using ex_size_ok
    by (simp add: tdb_open_def ex_get_db_neg) (simp add: ex_table_ops_def Let_def)
  from a b show ?thesis by simp
qed

lemma ex_get_db_relative:
  "tdb_get_db ex_table_ops [] ''db/cache.tdb'' 0 =
     Inr (Some \<lparr>hdr = None, ga_lock = False, count = 1, node = 0,
                path = ''db/cache0.tdb'', tbl_name = ''cache0.tdb''\<rparr>, [])"
  by (simp add: tdb_get_db_def ex_table_ops_def sizeof_TDB_SUFFIX_5 TDB_SUFFIX_def strrchr_def
       snprintf_def fmt_d_def zeroed_TDB_def tdb_get_def upt_rec[of _ "numeral _"] Let_def)

text \<open>
  C7 asks for an absolute path, and so does the message of \<^verbatim>\<open>tdb_get_db\<close>
  (\<^verbatim>\<open>Please specify absolute path\<close>); the test is for a \<^verbatim>\<open>/\<close> anywhere in the
  path. The relative path \<^verbatim>\<open>db/cache.tdb\<close> is opened.
\<close>

theorem tdb_open_relative_path:
  "tdb_open ex_table_ops [] ''db/cache.tdb'' 0x200000 64 0 =
     Inr (Some \<lparr>hdr = Some \<lparr>recs = [], priv = \<lparr>used = 0, capacity = 2097152\<rparr>\<rparr>,
                ga_lock = False, count = 1, node = 0,
                path = ''db/cache0.tdb'', tbl_name = ''cache0.tdb''\<rparr>,
          [\<lparr>hdr = Some \<lparr>recs = [], priv = \<lparr>used = 0, capacity = 2097152\<rparr>\<rparr>,
            ga_lock = False, count = 1, node = 0,
            path = ''db/cache0.tdb'', tbl_name = ''cache0.tdb''\<rparr>])"
  using ex_size_ok
  by (simp add: tdb_open_def ex_get_db_relative) (simp add: ex_table_ops_def Let_def)

text \<open>The handle returned for the relative path is not null and names the table.\<close>

theorem tdb_open_relative_path_witness:
  "\<exists>db w. tdb_open ex_table_ops [] ''db/cache.tdb'' 0x200000 64 0 = Inr (Some db, w) \<and>
          path db = ''db/cache0.tdb'' \<and> tbl_name db = ''cache0.tdb''"
  using tdb_open_relative_path by simp

section \<open>The lock of get-or-allocate\<close>

text \<open>\<^verbatim>\<open>tdb_rec_get_alloc\<close> returns only when it found the lock of the handle free,
  and has released it on every path that returns.\<close>

lemma tdb_rec_get_alloc_unlocks:
  assumes "tdb_rec_get_alloc ops db k c = Some (Inr (r, c', db'))"
  shows "\<not> ga_lock db \<and> \<not> ga_lock db'"
  using assms
  by (auto simp: tdb_rec_get_alloc_def Let_def
           split: if_splits prod.splits option.splits sum.splits)

end
